theory Spec2Isabelle
  imports Main
begin

section \<open>Image-variant Lambda (separate-storage/index.js)\<close>

text \<open>
  A shallow embedding of \<^verbatim>\<open>exports.handler\<close> and of the four sharp helpers of
  \<^verbatim>\<open>src/separate-storage/index.js\<close>. JavaScript strings are modelled as \<open>string\<close>
  holding the UTF-8 bytes of the text; every pattern the program searches for
  (\<^verbatim>\<open>original/\<close>, \<^verbatim>\<open>.\<close>, \<^verbatim>\<open>+\<close>, \<^verbatim>\<open>%\<close>, \<^verbatim>\<open>image/\<close>) is ASCII, so the searches agree
  with the ones JavaScript performs on UTF-16 code units. The S3 client and the sharp
  codec are outside the repository: they are parameters (\<open>env\<close>) that may fail.
\<close>

subsection \<open>Strings\<close>

text \<open>\<^verbatim>\<open>s.startsWith(p)\<close>\<close>

definition startsWith :: "string \<Rightarrow> string \<Rightarrow> bool" where
  "startsWith s p = (take (length p) s = p)"

text \<open>\<^verbatim>\<open>s.replace(pat, rep)\<close> with a string pattern: the first occurrence only.\<close>

fun replace_first :: "string \<Rightarrow> string \<Rightarrow> string \<Rightarrow> string" where
  "replace_first pat rep [] = (if pat = [] then rep else [])"
| "replace_first pat rep (c # cs) =
     (if startsWith (c # cs) pat then rep @ drop (length pat) (c # cs)
      else c # replace_first pat rep cs)"

text \<open>\<^verbatim>\<open>s.replace(/\+/g, " ")\<close>\<close>

definition replace_plus :: "string \<Rightarrow> string" where
  "replace_plus s = map (\<lambda>c. if c = CHR ''+'' then CHR '' '' else c) s"

text \<open>\<^verbatim>\<open>s.split(d)\<close> for a one-character separator; the result is never empty.\<close>

fun split :: "char \<Rightarrow> string \<Rightarrow> string list" where
  "split d [] = [[]]"
| "split d (c # cs) =
     (if c = d then [] # split d cs
      else (case split d cs of [] \<Rightarrow> [[c]] | x # xs \<Rightarrow> (c # x) # xs))"

text \<open>
  \<^verbatim>\<open>s.toLowerCase()\<close> on the ASCII letters. A non-ASCII letter lower-cases to text that
  still holds a non-ASCII character or the letter k, so it never makes an extension
  equal to one of the seven supported names, which is the only use of the result.
\<close>

definition lower_char :: "char \<Rightarrow> char" where
  "lower_char c =
     (let n = (of_char c :: nat) in if 65 \<le> n \<and> n \<le> 90 then char_of (n + 32) else c)"

definition toLowerCase :: "string \<Rightarrow> string" where
  "toLowerCase s = map lower_char s"

text \<open>
  The match of \<^verbatim>\<open>/\.([^.]+)$/\<close> (and of \<^verbatim>\<open>/\.[^.]+$/\<close>): the leftmost dot that is followed, up
  to the end of the string, by one or more characters none of which is a dot. The result
  is the text before the match and the group after the dot.
\<close>

fun match_ext :: "string \<Rightarrow> (string \<times> string) option" where
  "match_ext [] = None"
| "match_ext (c # cs) =
     (if c = CHR ''.'' \<and> cs \<noteq> [] \<and> CHR ''.'' \<notin> set cs then Some ([], cs)
      else (case match_ext cs of None \<Rightarrow> None | Some (p, e) \<Rightarrow> Some (c # p, e)))"

text \<open>\<^verbatim>\<open>filename.replace(/\.([^.]+)$/, `-${name}.$1`)\<close>\<close>

definition sizeFilename :: "string \<Rightarrow> string \<Rightarrow> string" where
  "sizeFilename filename name =
     (case match_ext filename of None \<Rightarrow> filename
      | Some (p, e) \<Rightarrow> p @ ''-'' @ name @ ''.'' @ e)"

text \<open>\<^verbatim>\<open>filename.replace(/\.[^.]+$/, ".webp")\<close>\<close>

definition webpFilename :: "string \<Rightarrow> string" where
  "webpFilename filename =
     (case match_ext filename of None \<Rightarrow> filename | Some (p, e) \<Rightarrow> p @ ''.webp'')"

text \<open>\<^verbatim>\<open>n.toString()\<close> for a non-negative integer.\<close>

fun show_nat :: "nat \<Rightarrow> string" where
  "show_nat n =
     (if n < 10 then [char_of (48 + n)]
      else show_nat (n div 10) @ [char_of (48 + n mod 10)])"

declare show_nat.simps [simp del]

subsection \<open>Errors\<close>

datatype error =
    TypeError
  | URIError
  | S3Error string
  | SharpError string
  | Error string

subsection \<open>decodeURIComponent\<close>

text \<open>
  The built-in of the runtime, after ECMAScript's Decode with an empty reserved set: a
  character other than \<^verbatim>\<open>%\<close> is kept; \<^verbatim>\<open>%XY\<close> is one octet; an octet with the high bit set
  announces a UTF-8 sequence whose remaining octets must each be escaped as well, and the
  octets must encode one code point. Anything else throws URIError.
\<close>

definition hex_val :: "char \<Rightarrow> nat option" where
  "hex_val c =
     (let n = (of_char c :: nat) in
      if 48 \<le> n \<and> n \<le> 57 then Some (n - 48)
      else if 65 \<le> n \<and> n \<le> 70 then Some (n - 55)
      else if 97 \<le> n \<and> n \<le> 102 then Some (n - 87)
      else None)"

fun pct_octet :: "string \<Rightarrow> (nat \<times> string) option" where
  "pct_octet (p # a # b # rest) =
     (if p = CHR ''%'' then
        (case hex_val a of None \<Rightarrow> None
         | Some x \<Rightarrow> (case hex_val b of None \<Rightarrow> None | Some y \<Rightarrow> Some (16 * x + y, rest)))
      else None)"
| "pct_octet _ = None"

fun pct_octets :: "nat \<Rightarrow> string \<Rightarrow> (nat list \<times> string) option" where
  "pct_octets 0 s = Some ([], s)"
| "pct_octets (Suc n) s =
     (case pct_octet s of None \<Rightarrow> None
      | Some (b, r) \<Rightarrow>
          (case pct_octets n r of None \<Rightarrow> None | Some (bs, r') \<Rightarrow> Some (b # bs, r')))"

text \<open>The number of octets a leading octet announces; none for 10xxxxxx and 11111xxx.\<close>

definition utf8_len :: "nat \<Rightarrow> nat option" where
  "utf8_len b =
     (if b < 128 then Some 1 else if b < 192 then None else if b < 224 then Some 2
      else if b < 240 then Some 3 else if b < 248 then Some 4 else None)"

definition cont_octet :: "nat \<Rightarrow> bool" where
  "cont_octet b = (128 \<le> b \<and> b \<le> 191)"

fun valid_utf8 :: "nat list \<Rightarrow> bool" where
  "valid_utf8 [a] = (a < 128)"
| "valid_utf8 [a, b] = (194 \<le> a \<and> a \<le> 223 \<and> cont_octet b)"
| "valid_utf8 [a, b, c] =
     ((a = 224 \<and> 160 \<le> b \<and> b \<le> 191 \<or> 225 \<le> a \<and> a \<le> 236 \<and> cont_octet b \<or>
       a = 237 \<and> 128 \<le> b \<and> b \<le> 159 \<or> 238 \<le> a \<and> a \<le> 239 \<and> cont_octet b) \<and>
      cont_octet c)"
| "valid_utf8 [a, b, c, d] =
     ((a = 240 \<and> 144 \<le> b \<and> b \<le> 191 \<or> 241 \<le> a \<and> a \<le> 243 \<and> cont_octet b \<or>
       a = 244 \<and> 128 \<le> b \<and> b \<le> 143) \<and>
      cont_octet c \<and> cont_octet d)"
| "valid_utf8 _ = False"

function decodeURIComponent :: "string \<Rightarrow> error + string" where
  "decodeURIComponent [] = Inr []"
| "decodeURIComponent (c # cs) =
     (if c \<noteq> CHR ''%'' then
        (case decodeURIComponent cs of Inl e \<Rightarrow> Inl e | Inr t \<Rightarrow> Inr (c # t))
      else
        (case pct_octet (c # cs) of None \<Rightarrow> Inl URIError
         | Some (b, r) \<Rightarrow>
             (case utf8_len b of None \<Rightarrow> Inl URIError
              | Some n \<Rightarrow>
                  (case pct_octets (n - 1) r of None \<Rightarrow> Inl URIError
                   | Some (bs, r') \<Rightarrow>
                       if valid_utf8 (b # bs) then
                         (case decodeURIComponent r' of Inl e \<Rightarrow> Inl e
                          | Inr t \<Rightarrow> Inr (map char_of (b # bs) @ t))
                       else Inl URIError))))"
  by pat_completeness auto

termination
proof (relation "measure length")
  show "wf (measure length)" by simp
next
  fix c :: char and cs :: string
  show "(cs, c # cs) \<in> measure length" by simp
next
  fix c :: char and cs r r' :: string and x :: "nat \<times> string" and b n :: nat
    and y :: "nat list \<times> string" and bs :: "nat list"
  assume a: "pct_octet (c # cs) = Some x" "(b, r) = x"
    "pct_octets (n - 1) r = Some y" "(bs, r') = y"
  have one: "pct_octet s = Some (v, t) \<Longrightarrow> length t < length s" for s v t
    by (induction s rule: pct_octet.induct) (auto split: if_splits option.splits)
  have many: "pct_octets k s = Some (vs, t) \<Longrightarrow> length t \<le> length s" for k s vs t
  proof (induction k arbitrary: s vs t)
    case 0
    then show ?case by simp
  next
    case (Suc k)
    then show ?case
      by (fastforce split: option.splits dest: one)
  qed
  from a have "length r < length (c # cs)" "length r' \<le> length r"
    using one [of "c # cs" b r] many [of "n - 1" r bs r'] by auto
  then show "(r', c # cs) \<in> measure length" by simp
qed

subsection \<open>Event values\<close>

text \<open>
  The event is the parsed JSON payload. An object lists its own properties in the order
  \<^verbatim>\<open>Object.keys\<close> enumerates them, each name once. A missing property reads as
  \<^verbatim>\<open>undefined\<close>, modelled by \<open>None\<close>.
\<close>

datatype json =
    JNull
  | JBool bool
  | JNum int
  | JStr string
  | JArr "json list"
  | JObj "(string \<times> json) list"

fun truthy :: "json option \<Rightarrow> bool" where
  "truthy None = False"
| "truthy (Some JNull) = False"
| "truthy (Some (JBool b)) = b"
| "truthy (Some (JNum n)) = (n \<noteq> 0)"
| "truthy (Some (JStr s)) = (s \<noteq> [])"
| "truthy (Some (JArr xs)) = True"
| "truthy (Some (JObj kvs)) = True"

text \<open>Reading a property of \<^verbatim>\<open>undefined\<close> or \<^verbatim>\<open>null\<close> throws a TypeError.\<close>

fun nullish :: "json option \<Rightarrow> bool" where
  "nullish None = True"
| "nullish (Some JNull) = True"
| "nullish (Some v) = False"

text \<open>
  \<^verbatim>\<open>v.k\<close> on a value that is not nullish, for the property names the handler reads
  (detail, bucket, object, name, key, Records, test, s3): none of them is a built-in
  property of a boolean, a number, a string or an array.
\<close>

fun get_prop :: "json option \<Rightarrow> string \<Rightarrow> json option" where
  "get_prop (Some (JObj kvs)) k = map_of kvs k"
| "get_prop v k = None"

text \<open>\<^verbatim>\<open>Array.isArray(v)\<close> and the elements of an array.\<close>

fun isArray :: "json option \<Rightarrow> bool" where
  "isArray (Some (JArr xs)) = True"
| "isArray v = False"

fun elements :: "json option \<Rightarrow> json list" where
  "elements (Some (JArr xs)) = xs"
| "elements v = []"

text \<open>
  The length of a string in UTF-16 code units, which is what JavaScript counts, read off
  its UTF-8 bytes: a continuation byte (10xxxxxx) adds nothing, the leading byte of a
  four-byte sequence stands for a surrogate pair, every other byte for one unit.
\<close>

definition utf16_units :: "char \<Rightarrow> nat" where
  "utf16_units c =
     (let n = (of_char c :: nat) in
      if 128 \<le> n \<and> n < 192 then 0 else if 240 \<le> n then 2 else 1)"

definition utf16_length :: "string \<Rightarrow> nat" where
  "utf16_length s = sum_list (map utf16_units s)"

text \<open>
  \<^verbatim>\<open>Object.keys(v)\<close>: the property names of an object, the indices of an array, the
  indices of the code units of a string, nothing for the other primitives.
\<close>

fun object_keys :: "json \<Rightarrow> string list" where
  "object_keys (JObj kvs) = map fst kvs"
| "object_keys (JArr xs) = map show_nat [0..<length xs]"
| "object_keys (JStr s) = map show_nat [0..<utf16_length s]"
| "object_keys v = []"

record response =
  statusCode :: nat
  body :: json

text \<open>The \<open>body\<close> field holds the value that the handler passes to \<^verbatim>\<open>JSON.stringify\<close>.\<close>

definition probe_response :: response where
  "probe_response =
     \<lparr>statusCode = 200,
      body = JObj
        [(''message'', JStr ''Lambda function is working. Configure S3 trigger or EventBridge to process images.''),
         (''note'', JStr ''This function processes images when triggered by S3 events in the 'original/' folder.'')]\<rparr>"

definition invalid_response :: "json \<Rightarrow> response" where
  "invalid_response event =
     \<lparr>statusCode = 400,
      body = JObj
        [(''error'', JStr ''Invalid event format. Expected S3 event or EventBridge event.''),
         (''received'', JArr (map JStr (object_keys event)))]\<rparr>"

definition no_records_response :: response where
  "no_records_response =
     \<lparr>statusCode = 200, body = JObj [(''message'', JStr ''No records to process'')]\<rparr>"

definition success_response :: response where
  "success_response =
     \<lparr>statusCode = 200, body = JObj [(''message'', JStr ''Images processed successfully'')]\<rparr>"

text \<open>
  The record that the handler builds for an EventBridge event. A property whose value is
  \<^verbatim>\<open>undefined\<close> reads like a missing one, so it is left out.
\<close>

fun own_field :: "string \<Rightarrow> json option \<Rightarrow> (string \<times> json) list" where
  "own_field k None = []"
| "own_field k (Some v) = [(k, v)]"

definition eventbridge_record :: "json option \<Rightarrow> json" where
  "eventbridge_record detail =
     JObj [(''s3'', JObj
       [(''bucket'', JObj (own_field ''name'' (get_prop (get_prop detail ''bucket'') ''name''))),
        (''object'', JObj (own_field ''key'' (get_prop (get_prop detail ''object'') ''key'')))])]"

datatype classification = Work "json list" | Respond response

text \<open>
  Lines 9 to 53: the chain that either fills \<^verbatim>\<open>records\<close> or returns. \<^verbatim>\<open>event.detail\<close> on
  a \<^verbatim>\<open>null\<close> event throws.
\<close>

definition classify :: "json \<Rightarrow> error + classification" where
  "classify event =
     (if nullish (Some event) then Inl TypeError
      else
        let detail = get_prop (Some event) ''detail'';
            Records = get_prop (Some event) ''Records''
        in
        if truthy detail \<and> truthy (get_prop detail ''bucket'') \<and> truthy (get_prop detail ''object'')
        then Inr (Work [eventbridge_record detail])
        else if truthy Records \<and> isArray Records \<and> length (elements Records) > 0
        then Inr (Work (elements Records))
        else if get_prop (Some event) ''test'' = Some (JBool True)
        then Inr (Respond probe_response)
        else Inr (Respond (invalid_response event)))"

text \<open>
  Lines 64 and 65: \<^verbatim>\<open>record.s3.bucket.name\<close> and \<^verbatim>\<open>record.s3.object.key.replace\<close>. The bucket
  name is read but not used yet, so it may be anything; the key must be a string, since
  only a string has a \<^verbatim>\<open>replace\<close> method.
\<close>

definition read_record :: "json \<Rightarrow> error + (json option \<times> string)" where
  "read_record record =
     (if nullish (Some record) then Inl TypeError
      else
        let s3 = get_prop (Some record) ''s3'' in
        if nullish s3 then Inl TypeError
        else if nullish (get_prop s3 ''bucket'') then Inl TypeError
        else
          let bucket = get_prop (get_prop s3 ''bucket'') ''name'' in
          if nullish (get_prop s3 ''object'') then Inl TypeError
          else
            (case get_prop (get_prop s3 ''object'') ''key'' of
               Some (JStr k) \<Rightarrow> Inr (bucket, k)
             | _ \<Rightarrow> Inl TypeError))"

subsection \<open>The object store\<close>

type_synonym buffer = "nat list"

record s3_object =
  obj_body :: buffer
  obj_content_type :: "string option"
  obj_cache_control :: "string option"
  obj_metadata :: "(string \<times> string) list"

datatype s3_call =
    GetObject string string
  | PutObject string string s3_object

text \<open>
  The state threaded through an invocation: the objects of the store, by bucket and key,
  and the requests sent so far.
\<close>

record s3_state =
  objects :: "string \<times> string \<Rightarrow> s3_object option"
  calls :: "s3_call list"

text \<open>
  One step of a sharp pipeline. Every resize of the program has
  \<^verbatim>\<open>fit: "inside", withoutEnlargement: true\<close>.
\<close>

datatype sharp_op =
    Rotate
  | ResizeInside "nat option" "nat option"
  | Jpeg nat bool bool
  | Png nat nat
  | Webp nat nat
  | ToFormat string nat

text \<open>
  What the program does not contain: whether the n-th request to S3 fails, sharp's
  \<^verbatim>\<open>metadata()\<close> (width and height) and \<^verbatim>\<open>toBuffer()\<close> of a pipeline on an input, the
  floating-point rendering \<^verbatim>\<open>((a - b) / a * 100).toFixed(2)\<close>, and the clock.
\<close>

record env =
  s3_fault :: "nat \<Rightarrow> s3_call \<Rightarrow> error option"
  sharp_metadata :: "buffer \<Rightarrow> error + nat \<times> nat"
  sharp_toBuffer :: "buffer \<Rightarrow> sharp_op list \<Rightarrow> error + buffer"
  toFixed2 :: "nat \<Rightarrow> nat \<Rightarrow> string"
  toISOString :: "nat \<Rightarrow> string"

text \<open>The SDK validates \<^verbatim>\<open>Bucket\<close> before it sends a request: it must be a string.\<close>

fun validate_bucket :: "json option \<Rightarrow> error + string" where
  "validate_bucket (Some (JStr b)) = Inr b"
| "validate_bucket None = Inl (S3Error ''MissingRequiredParameter'')"
| "validate_bucket (Some JNull) = Inl (S3Error ''MissingRequiredParameter'')"
| "validate_bucket (Some v) = Inl (S3Error ''InvalidParameterType'')"

definition s3_getObject ::
  "env \<Rightarrow> s3_state \<Rightarrow> json option \<Rightarrow> string \<Rightarrow> (error + s3_object) \<times> s3_state" where
  "s3_getObject e s bucket key =
     (case validate_bucket bucket of Inl err \<Rightarrow> (Inl err, s)
      | Inr b \<Rightarrow>
          let s1 = s\<lparr>calls := calls s @ [GetObject b key]\<rparr> in
          (case s3_fault e (length (calls s)) (GetObject b key) of
             Some err \<Rightarrow> (Inl err, s1)
           | None \<Rightarrow>
               (case objects s (b, key) of
                  None \<Rightarrow> (Inl (S3Error ''NoSuchKey''), s1)
                | Some obj \<Rightarrow> (Inr obj, s1))))"

definition s3_putObject ::
  "env \<Rightarrow> s3_state \<Rightarrow> json option \<Rightarrow> string \<Rightarrow> s3_object \<Rightarrow> (error + unit) \<times> s3_state" where
  "s3_putObject e s bucket key obj =
     (case validate_bucket bucket of Inl err \<Rightarrow> (Inl err, s)
      | Inr b \<Rightarrow>
          let s1 = s\<lparr>calls := calls s @ [PutObject b key obj]\<rparr> in
          (case s3_fault e (length (calls s)) (PutObject b key obj) of
             Some err \<Rightarrow> (Inl err, s1)
           | None \<Rightarrow> (Inr (), s1\<lparr>objects := (objects s1)((b, key) \<mapsto> obj)\<rparr>)))"

text \<open>
  \<^verbatim>\<open>Promise.all\<close> over requests that are all sent before any is awaited: each one takes
  effect or fails on its own, and the join rejects when one of them did (with the first
  failure in the order sent).
\<close>

fun s3_putObject_all ::
  "env \<Rightarrow> s3_state \<Rightarrow> json option \<Rightarrow> (string \<times> s3_object) list \<Rightarrow> (error + unit) \<times> s3_state" where
  "s3_putObject_all e s bucket [] = (Inr (), s)"
| "s3_putObject_all e s bucket ((key, obj) # rest) =
     (case s3_putObject e s bucket key obj of
        (r1, s1) \<Rightarrow>
          (case s3_putObject_all e s1 bucket rest of
             (r2, s2) \<Rightarrow> ((case r1 of Inl err \<Rightarrow> Inl err | Inr u \<Rightarrow> r2), s2)))"

subsection \<open>The sharp helpers\<close>

text \<open>\<^verbatim>\<open>extension === "jpg" ? "jpeg" : extension\<close>\<close>

definition target_format :: "string \<Rightarrow> string" where
  "target_format extension = (if extension = ''jpg'' then ''jpeg'' else extension)"

text \<open>
  \<^verbatim>\<open>optimizeImage\<close>, lines 242 to 296: the pipeline built after \<^verbatim>\<open>metadata()\<close> returned
  the width and the height, or the error of the \<^verbatim>\<open>default\<close> branch.
\<close>

definition optimizeImage_pipeline :: "nat \<times> nat \<Rightarrow> string \<Rightarrow> error + sharp_op list" where
  "optimizeImage_pipeline md extension =
     (let maxDimension = 1200;
          sized = (if fst md > maxDimension \<or> snd md > maxDimension
                   then [Rotate, ResizeInside (Some maxDimension) (Some maxDimension)]
                   else [Rotate])
      in
      if extension = ''jpg'' \<or> extension = ''jpeg'' then Inr (sized @ [Jpeg 85 True True])
      else if extension = ''png'' then Inr (sized @ [Png 85 9])
      else if extension = ''webp'' then Inr (sized @ [Webp 85 6])
      else Inl (Error (''Unsupported image format: '' @ extension)))"

definition optimizeImage :: "env \<Rightarrow> buffer \<Rightarrow> string \<Rightarrow> error + buffer" where
  "optimizeImage e buffer extension =
     (case sharp_metadata e buffer of Inl err \<Rightarrow> Inl err
      | Inr md \<Rightarrow>
          (case optimizeImage_pipeline md extension of Inl err \<Rightarrow> Inl err
           | Inr ops \<Rightarrow> sharp_toBuffer e buffer ops))"

text \<open>\<^verbatim>\<open>createThumbnail\<close>, lines 298 to 309.\<close>

definition createThumbnail_pipeline :: "string \<Rightarrow> sharp_op list" where
  "createThumbnail_pipeline extension =
     [ResizeInside (Some 300) (Some 300), ToFormat (target_format extension) 80]"

definition createThumbnail :: "env \<Rightarrow> buffer \<Rightarrow> string \<Rightarrow> error + buffer" where
  "createThumbnail e buffer extension =
     sharp_toBuffer e buffer (createThumbnail_pipeline extension)"

text \<open>\<^verbatim>\<open>createResizedImage\<close>, lines 311 to 321.\<close>

definition createResizedImage_pipeline :: "string \<Rightarrow> nat \<Rightarrow> sharp_op list" where
  "createResizedImage_pipeline extension width =
     [ResizeInside (Some width) None, ToFormat (target_format extension) 85]"

definition createResizedImage :: "env \<Rightarrow> buffer \<Rightarrow> string \<Rightarrow> nat \<Rightarrow> error + buffer" where
  "createResizedImage e buffer extension width =
     sharp_toBuffer e buffer (createResizedImage_pipeline extension width)"

text \<open>\<^verbatim>\<open>convertToWebP\<close>, lines 323 to 330.\<close>

definition convertToWebP_pipeline :: "sharp_op list" where
  "convertToWebP_pipeline = [Webp 85 6]"

definition convertToWebP :: "env \<Rightarrow> buffer \<Rightarrow> error + buffer" where
  "convertToWebP e buffer = sharp_toBuffer e buffer convertToWebP_pipeline"

subsection \<open>One work item\<close>

definition supportedImageFormats :: "string list" where
  "supportedImageFormats = [''jpg'', ''jpeg'', ''png'', ''webp'', ''gif'', ''bmp'', ''tiff'']"

definition sizes :: "(string \<times> nat) list" where
  "sizes = [(''small'', 320), (''medium'', 640), (''large'', 1024)]"

text \<open>\<^verbatim>\<open>key.replace("original/", "")\<close>\<close>

definition filename_of :: "string \<Rightarrow> string" where
  "filename_of key = replace_first ''original/'' [] key"

text \<open>\<^verbatim>\<open>filename.split(".").pop().toLowerCase()\<close>\<close>

definition fileExtension_of :: "string \<Rightarrow> string" where
  "fileExtension_of filename = toLowerCase (last (split CHR ''.'' filename))"

text \<open>\<^verbatim>\<open>a || b\<close> on an optional string: \<^verbatim>\<open>undefined\<close> and the empty string are falsy.\<close>

fun or_else :: "string option \<Rightarrow> string \<Rightarrow> string" where
  "or_else None d = d"
| "or_else (Some c) d = (if c = [] then d else c)"

text \<open>\<^verbatim>\<open>Promise.all\<close> over the three resizes, which have no effect on the store.\<close>

fun resize_all :: "env \<Rightarrow> buffer \<Rightarrow> string \<Rightarrow> (string \<times> nat) list \<Rightarrow> error + (string \<times> buffer) list" where
  "resize_all e buffer extension [] = Inr []"
| "resize_all e buffer extension ((name, width) # rest) =
     (case createResizedImage e buffer extension width of Inl err \<Rightarrow> Inl err
      | Inr b \<Rightarrow>
          (case resize_all e buffer extension rest of Inl err \<Rightarrow> Inl err
           | Inr bs \<Rightarrow> Inr ((name, b) # bs)))"

text \<open>The four kinds of \<^verbatim>\<open>putObject\<close> parameters, lines 152 to 216.\<close>

definition optimized_object :: "env \<Rightarrow> s3_state \<Rightarrow> s3_object \<Rightarrow> string \<Rightarrow> buffer \<Rightarrow> s3_object" where
  "optimized_object e s originalImage fileExtension optimizedBuffer =
     \<lparr>obj_body = optimizedBuffer,
      obj_content_type =
        Some (or_else (obj_content_type originalImage) (''image/'' @ target_format fileExtension)),
      obj_cache_control = Some ''max-age=31536000'',
      obj_metadata =
        [(''originalSize'', show_nat (length (obj_body originalImage))),
         (''optimizedSize'', show_nat (length optimizedBuffer)),
         (''compressionRatio'',
            toFixed2 e (length (obj_body originalImage)) (length optimizedBuffer)),
         (''optimizedAt'', toISOString e (length (calls s)))]\<rparr>"

definition variant_object :: "string \<Rightarrow> buffer \<Rightarrow> s3_object" where
  "variant_object fileExtension buffer =
     \<lparr>obj_body = buffer,
      obj_content_type = Some (''image/'' @ target_format fileExtension),
      obj_cache_control = Some ''max-age=31536000'',
      obj_metadata = []\<rparr>"

definition size_request :: "string \<Rightarrow> string \<Rightarrow> string \<times> buffer \<Rightarrow> string \<times> s3_object" where
  "size_request filename fileExtension resized =
     (''sizes/'' @ sizeFilename filename (fst resized), variant_object fileExtension (snd resized))"

definition webp_object :: "buffer \<Rightarrow> s3_object" where
  "webp_object webpBuffer =
     \<lparr>obj_body = webpBuffer,
      obj_content_type = Some ''image/webp'',
      obj_cache_control = Some ''max-age=31536000'',
      obj_metadata = []\<rparr>"

text \<open>Lines 152 to 216: the writes, with the WebP conversion between the last two.\<close>

definition store_variants ::
  "env \<Rightarrow> s3_state \<Rightarrow> json option \<Rightarrow> s3_object \<Rightarrow> string \<Rightarrow> string \<Rightarrow>
   buffer \<Rightarrow> buffer \<Rightarrow> (string \<times> buffer) list \<Rightarrow> (error + unit) \<times> s3_state" where
  "store_variants e s bucket originalImage filename fileExtension
       optimizedBuffer thumbnailBuffer resizedImages =
     (case s3_putObject e s bucket (''optimized/'' @ filename)
             (optimized_object e s originalImage fileExtension optimizedBuffer) of
        (Inl err, s1) \<Rightarrow> (Inl err, s1)
      | (Inr u1, s1) \<Rightarrow>
     (case s3_putObject e s1 bucket (''thumbnails/'' @ filename)
             (variant_object fileExtension thumbnailBuffer) of
        (Inl err, s2) \<Rightarrow> (Inl err, s2)
      | (Inr u2, s2) \<Rightarrow>
     (case s3_putObject_all e s2 bucket
             (map (size_request filename fileExtension) resizedImages) of
        (Inl err, s3) \<Rightarrow> (Inl err, s3)
      | (Inr u3, s3) \<Rightarrow>
     (case convertToWebP e (obj_body originalImage) of
        Inl err \<Rightarrow> (Inl err, s3)
      | Inr webpBuffer \<Rightarrow>
          s3_putObject e s3 bucket (''webp/'' @ webpFilename filename)
            (webp_object webpBuffer)))))"

text \<open>Lines 110 to 137: the transforms, all before the first write.\<close>

definition make_variants ::
  "env \<Rightarrow> buffer \<Rightarrow> string \<Rightarrow> error + buffer \<times> buffer \<times> (string \<times> buffer) list" where
  "make_variants e buffer fileExtension =
     (case optimizeImage e buffer fileExtension of Inl err \<Rightarrow> Inl err
      | Inr optimizedBuffer \<Rightarrow>
     (case createThumbnail e buffer fileExtension of Inl err \<Rightarrow> Inl err
      | Inr thumbnailBuffer \<Rightarrow>
     (case resize_all e buffer fileExtension sizes of Inl err \<Rightarrow> Inl err
      | Inr resizedImages \<Rightarrow> Inr (optimizedBuffer, thumbnailBuffer, resizedImages))))"

text \<open>
  The three \<^verbatim>\<open>continue\<close> statements, told apart by the line each one logs:
  \<^verbatim>\<open>Skipping non-original file\<close>, \<^verbatim>\<open>Unsupported file format\<close> and
  \<^verbatim>\<open>Not an image file based on Content-Type\<close>.
\<close>

datatype skip = NonOriginalFile | UnsupportedFileFormat | NotAnImageFile

datatype outcome = Skipped skip | Processed

text \<open>
  The body of the loop from line 67 on, for a decoded key. \<open>Skipped\<close> is a
  \<^verbatim>\<open>continue\<close>; \<open>Inl\<close> is the error that the \<^verbatim>\<open>catch\<close> block logs and throws again.
\<close>

definition process_key ::
  "env \<Rightarrow> s3_state \<Rightarrow> json option \<Rightarrow> string \<Rightarrow> (error + outcome) \<times> s3_state" where
  "process_key e s bucket key =
     (if \<not> startsWith key ''original/'' then (Inr (Skipped NonOriginalFile), s)
      else
        (case s3_getObject e s bucket key of
           (Inl err, s1) \<Rightarrow> (Inl err, s1)
         | (Inr originalImage, s1) \<Rightarrow>
             let filename = filename_of key;
                 fileExtension = fileExtension_of filename
             in
             if fileExtension \<notin> set supportedImageFormats
             then (Inr (Skipped UnsupportedFileFormat), s1)
             else if \<not> startsWith (or_else (obj_content_type originalImage) []) ''image/''
             then (Inr (Skipped NotAnImageFile), s1)
             else
               (case make_variants e (obj_body originalImage) fileExtension of
                  Inl err \<Rightarrow> (Inl err, s1)
                | Inr (optimizedBuffer, thumbnailBuffer, resizedImages) \<Rightarrow>
                    (case store_variants e s1 bucket originalImage filename fileExtension
                            optimizedBuffer thumbnailBuffer resizedImages of
                       (Inl err, s2) \<Rightarrow> (Inl err, s2)
                     | (Inr u, s2) \<Rightarrow> (Inr Processed, s2)))))"

text \<open>Lines 63 to 65 and the body: one iteration of the loop over \<^verbatim>\<open>records\<close>.\<close>

definition process_record :: "env \<Rightarrow> s3_state \<Rightarrow> json \<Rightarrow> (error + outcome) \<times> s3_state" where
  "process_record e s record =
     (case read_record record of Inl err \<Rightarrow> (Inl err, s)
      | Inr (bucket, raw) \<Rightarrow>
          (case decodeURIComponent (replace_plus raw) of Inl err \<Rightarrow> (Inl err, s)
           | Inr key \<Rightarrow> process_key e s bucket key))"

fun process_records :: "env \<Rightarrow> s3_state \<Rightarrow> json list \<Rightarrow> (error + unit) \<times> s3_state" where
  "process_records e s [] = (Inr (), s)"
| "process_records e s (record # rest) =
     (case process_record e s record of
        (Inl err, s1) \<Rightarrow> (Inl err, s1)
      | (Inr done, s1) \<Rightarrow> process_records e s1 rest)"

subsection \<open>The handler\<close>

definition handler :: "env \<Rightarrow> s3_state \<Rightarrow> json \<Rightarrow> (error + response) \<times> s3_state" where
  "handler e s event =
     (case classify event of Inl err \<Rightarrow> (Inl err, s)
      | Inr (Respond r) \<Rightarrow> (Inr r, s)
      | Inr (Work records) \<Rightarrow>
          if length records = 0 then (Inr no_records_response, s)
          else
            (case process_records e s records of
               (Inl err, s1) \<Rightarrow> (Inl err, s1)
             | (Inr u, s1) \<Rightarrow> (Inr success_response, s1)))"

subsection \<open>Observations on a run\<close>

text \<open>The keys written by a sequence of requests, and each with the content type sent.\<close>

fun put_keys :: "s3_call list \<Rightarrow> string list" where
  "put_keys [] = []"
| "put_keys (GetObject b k # cs) = put_keys cs"
| "put_keys (PutObject b k obj # cs) = k # put_keys cs"

fun put_content_types :: "s3_call list \<Rightarrow> (string \<times> string option) list" where
  "put_content_types [] = []"
| "put_content_types (GetObject b k # cs) = put_content_types cs"
| "put_content_types (PutObject b k obj # cs) = (k, obj_content_type obj) # put_content_types cs"

text \<open>
  \<open>evolves P s s'\<close>: the requests sent between \<open>s\<close> and \<open>s'\<close> all satisfy \<open>P\<close>, and an
  object of \<open>s'\<close> is either the one of \<open>s\<close> or was put by a request that satisfies \<open>P\<close>.
\<close>

definition evolves :: "(s3_call \<Rightarrow> bool) \<Rightarrow> s3_state \<Rightarrow> s3_state \<Rightarrow> bool" where
  "evolves P s s' =
     ((\<exists>new. calls s' = calls s @ new \<and> list_all P new) \<and>
      (\<forall>b k. objects s' (b, k) = objects s (b, k) \<or>
             (\<exists>obj. objects s' (b, k) = Some obj \<and> P (PutObject b k obj))))"

fun writes_original :: "s3_call \<Rightarrow> bool" where
  "writes_original (PutObject b k obj) = startsWith k ''original/''"
| "writes_original (GetObject b k) = False"

text \<open>
  Eligibility as the specification words it: the key starts with the source prefix, the
  lower-cased suffix after the last dot is a supported extension, and the fetched content
  type starts with \<^verbatim>\<open>image/\<close>.
\<close>

definition eligible :: "string \<Rightarrow> string option \<Rightarrow> bool" where
  "eligible key contentType =
     (startsWith key ''original/'' \<and>
      fileExtension_of (filename_of key) \<in> set supportedImageFormats \<and>
      startsWith (or_else contentType []) ''image/'')"

text \<open>
  The content type that the specification gives a variant other than the optimized one:
  \<^verbatim>\<open>image/jpeg\<close> for the extensions jpg and jpeg, \<^verbatim>\<open>image/<extension>\<close> otherwise, and
  \<^verbatim>\<open>image/webp\<close> for the WebP variant.
\<close>

fun variant_content_type_ok :: "string \<Rightarrow> s3_call \<Rightarrow> bool" where
  "variant_content_type_ok ext (GetObject b k) = True"
| "variant_content_type_ok ext (PutObject b k obj) =
     ((startsWith k ''thumbnails/'' \<or> startsWith k ''sizes/'' \<longrightarrow>
         obj_content_type obj =
           Some (if ext = ''jpg'' \<or> ext = ''jpeg'' then ''image/jpeg'' else ''image/'' @ ext)) \<and>
      (startsWith k ''webp/'' \<longrightarrow> obj_content_type obj = Some ''image/webp''))"

text \<open>
  The two conditions on an event that the specification names: a direct-notification
  descriptor (\<^verbatim>\<open>detail.bucket\<close> and \<^verbatim>\<open>detail.object\<close>), and a non-empty array of records.
\<close>

definition has_descriptor :: "json \<Rightarrow> bool" where
  "has_descriptor event =
     (let detail = get_prop (Some event) ''detail'' in
      truthy detail \<and> truthy (get_prop detail ''bucket'') \<and> truthy (get_prop detail ''object''))"

definition has_records :: "json \<Rightarrow> bool" where
  "has_records event =
     (let Records = get_prop (Some event) ''Records'' in isArray Records \<and> elements Records \<noteq> [])"

text \<open>
  The content type that the specification derives from a target format,
  \<^verbatim>\<open>image/<format>\<close>, for every put but the optimized one, whose content type is the one
  declared on the source object.
\<close>

fun stored_content_type_ok :: "string option \<Rightarrow> string \<Rightarrow> s3_call \<Rightarrow> bool" where
  "stored_content_type_ok declared format (GetObject b k) = True"
| "stored_content_type_ok declared format (PutObject b k obj) =
     (obj_content_type obj =
        (if startsWith k ''optimized/'' then declared
         else if startsWith k ''webp/'' then Some ''image/webp''
         else Some (''image/'' @ format)))"



text \<open>
  Percent-encoding of octets, to state what decoding yields: \<^verbatim>\<open>%XY\<close> with the two
  hexadecimal digits of the octet, in upper or in lower case.
\<close>

definition hex_digit :: "bool \<Rightarrow> nat \<Rightarrow> char" where
  "hex_digit upper n =
     char_of (if n < 10 then 48 + n else if upper then 55 + n else 87 + n)"

definition pct_escape :: "bool \<Rightarrow> nat \<Rightarrow> string" where
  "pct_escape upper b = [CHR ''%'', hex_digit upper (b div 16), hex_digit upper (b mod 16)]"

definition pct_encode :: "bool \<Rightarrow> nat list \<Rightarrow> string" where
  "pct_encode upper bs = concat (map (pct_escape upper) bs)"

subsection \<open>A concrete bucket, codec and events\<close>

definition env0 :: env where
  "env0 =
     \<lparr>s3_fault = (\<lambda>n c. None),
      sharp_metadata = (\<lambda>b. Inr (2000, 1500)),
      sharp_toBuffer = (\<lambda>b ops. Inr [length ops]),
      toFixed2 = (\<lambda>a b. ''66.67''),
      toISOString = (\<lambda>n. ''2024-01-01T00:00:00.000Z'')\<rparr>"

definition image_object :: "string \<Rightarrow> s3_object" where
  "image_object ct =
     \<lparr>obj_body = [1, 2, 3], obj_content_type = Some ct, obj_cache_control = None,
      obj_metadata = []\<rparr>"

definition store0 :: s3_state where
  "store0 =
     \<lparr>objects =
        [(''bkt'', ''original/photo.jpg'') \<mapsto> image_object ''image/jpeg'',
         (''bkt'', ''original/photo.JPG'') \<mapsto> image_object ''image/jpeg'',
         (''bkt'', ''original/a.gif'') \<mapsto> image_object ''image/gif'',
         (''bkt'', ''original/doc.pdf'') \<mapsto> image_object ''application/pdf'',
         (''bkt'', ''original/fake.jpg'') \<mapsto> image_object ''text/plain'',
         (''bkt'', ''original/scan.png'') \<mapsto> image_object ''image/jpeg'',
         (''bkt'', ''original/a+b c.jpg'') \<mapsto> image_object ''image/jpeg''],
      calls = []\<rparr>"

definition s3_record :: "string \<Rightarrow> json" where
  "s3_record key =
     JObj [(''s3'', JObj [(''bucket'', JObj [(''name'', JStr ''bkt'')]),
                          (''object'', JObj [(''key'', JStr key)])])]"

definition s3_event :: "string list \<Rightarrow> json" where
  "s3_event keys = JObj [(''Records'', JArr (map s3_record keys))]"

definition eventbridge_event :: "string \<Rightarrow> string \<Rightarrow> json" where
  "eventbridge_event bucket key =
     JObj [(''detail'', JObj [(''bucket'', JObj [(''name'', JStr bucket)]),
                              (''object'', JObj [(''key'', JStr key)])])]"




text \<open>The bucket with one more object, whose name holds two spaces, a plus and an e acute.\<close>

definition store1 :: s3_state where
  "store1 =
     store0\<lparr>objects := (objects store0)
       ((''bkt'', ''original/my summer photo+'' @ [CHR 0xC3, CHR 0xA9] @ ''.jpg'') \<mapsto>
          image_object ''image/jpeg'')\<rparr>"

section \<open>Auxiliary facts\<close>

lemma startsWith_append [simp]: "startsWith (p @ s) p"
  by (simp add: startsWith_def)

lemma filename_of_original: "filename_of (''original/'' @ f) = f"
  by (simp add: filename_of_def startsWith_def)

lemma startsWith_decompose: "startsWith s p \<Longrightarrow> p @ drop (length p) s = s"
  unfolding startsWith_def by (metis append_take_drop_id)

lemma filename_of_startsWith:
  assumes "startsWith key ''original/''"
  shows "''original/'' @ filename_of key = key"
proof -
  obtain f where k: "key = ''original/'' @ f"
    using startsWith_decompose [OF assms] by metis
  show ?thesis unfolding k filename_of_original ..
qed

lemma split_nonempty: "split d s \<noteq> []"
  by (induction s) (auto split: list.splits)

lemma last_split_no_sep: "d \<notin> set e \<Longrightarrow> split d e = [e]"
  by (induction e) (auto split: list.splits)

lemma split_append: "split d (n @ d # e) = split d n @ split d e"
proof (induction n)
  case Nil
  show ?case by simp
next
  case (Cons a n)
  obtain x xs where x: "split d n = x # xs"
    using split_nonempty [of d n] by (cases "split d n") auto
  with Cons show ?case by simp
qed

lemma last_split_append: "d \<notin> set e \<Longrightarrow> last (split d (n @ d # e)) = e"
  by (simp add: split_append last_split_no_sep)

lemma match_ext_append:
  "e \<noteq> [] \<Longrightarrow> CHR ''.'' \<notin> set e \<Longrightarrow> match_ext (n @ CHR ''.'' # e) = Some (n, e)"
  by (induction n) auto

lemma sizeFilename_append:
  "e \<noteq> [] \<Longrightarrow> CHR ''.'' \<notin> set e \<Longrightarrow>
   sizeFilename (n @ ''.'' @ e) name = n @ ''-'' @ name @ ''.'' @ e"
  by (simp add: sizeFilename_def match_ext_append)

lemma webpFilename_append:
  "e \<noteq> [] \<Longrightarrow> CHR ''.'' \<notin> set e \<Longrightarrow> webpFilename (n @ ''.'' @ e) = n @ ''.webp''"
  by (simp add: webpFilename_def match_ext_append)

lemma fileExtension_of_append:
  "CHR ''.'' \<notin> set e \<Longrightarrow> fileExtension_of (n @ ''.'' @ e) = toLowerCase e"
  by (simp add: fileExtension_of_def last_split_append)

lemma put_keys_append: "put_keys (xs @ ys) = put_keys xs @ put_keys ys"
  by (induction xs rule: put_keys.induct) auto

lemma evolves_refl: "evolves P s s"
  by (simp add: evolves_def)

lemma evolves_trans:
  assumes "evolves P s s1" "evolves P s1 s2"
  shows "evolves P s s2"
proof -
  from assms obtain n1 n2 where
    n: "calls s1 = calls s @ n1" "list_all P n1" "calls s2 = calls s1 @ n2" "list_all P n2"
    unfolding evolves_def by blast
  then have c: "\<exists>new. calls s2 = calls s @ new \<and> list_all P new"
    by simp
  have o: "objects s2 (b, k) = objects s (b, k) \<or>
        (\<exists>obj. objects s2 (b, k) = Some obj \<and> P (PutObject b k obj))" for b k
    using assms unfolding evolves_def by metis
  from c o show ?thesis unfolding evolves_def by blast
qed

lemma evolves_get:
  assumes "s3_getObject e s bucket key = (r, s')" "\<And>b. P (GetObject b key)"
  shows "evolves P s s'"
  using assms
  by (auto simp: s3_getObject_def evolves_def Let_def split: sum.splits option.splits)

lemma evolves_put:
  assumes "s3_putObject e s bucket key obj = (r, s')" "\<And>b. P (PutObject b key obj)"
  shows "evolves P s s'"
  using assms
  by (auto simp: s3_putObject_def evolves_def Let_def split: sum.splits option.splits)

lemma evolves_put_all:
  assumes "s3_putObject_all e s bucket reqs = (r, s')"
    "\<And>b k obj. (k, obj) \<in> set reqs \<Longrightarrow> P (PutObject b k obj)"
  shows "evolves P s s'"
  using assms
proof (induction reqs arbitrary: s r s')
  case Nil
  then show ?case by (simp add: evolves_refl)
next
  case (Cons req reqs)
  obtain k obj where req: "req = (k, obj)" by (cases req)
  obtain r1 s1 where p1: "s3_putObject e s bucket k obj = (r1, s1)"
    by (cases "s3_putObject e s bucket k obj")
  obtain r2 s2 where p2: "s3_putObject_all e s1 bucket reqs = (r2, s2)"
    by (cases "s3_putObject_all e s1 bucket reqs")
  from Cons.prems(1) req p1 p2 have s': "s' = s2" by simp
  have e1: "evolves P s s1"
    using p1 Cons.prems(2) req by (auto intro: evolves_put)
  have e2: "evolves P s1 s2"
    using Cons.IH [OF p2] Cons.prems(2) by simp
  show ?case unfolding s' using e1 e2 by (rule evolves_trans)
qed

lemma resize_all_names:
  "resize_all e buffer ext szs = Inr rs \<Longrightarrow> map fst rs = map fst szs"
  by (induction szs arbitrary: rs) (auto split: sum.splits)

lemma evolves_store_variants:
  assumes run: "store_variants e s bucket orig filename ext ob tb rs = (r, s')"
    and opt: "\<And>b. P (PutObject b (''optimized/'' @ filename) (optimized_object e s orig ext ob))"
    and thumb: "\<And>b. P (PutObject b (''thumbnails/'' @ filename) (variant_object ext tb))"
    and sized: "\<And>b x. x \<in> set rs \<Longrightarrow>
        P (PutObject b (fst (size_request filename ext x)) (snd (size_request filename ext x)))"
    and webp: "\<And>b wb. P (PutObject b (''webp/'' @ webpFilename filename) (webp_object wb))"
  shows "evolves P s s'"
proof -
  obtain r1 s1 where p1: "s3_putObject e s bucket (''optimized/'' @ filename)
      (optimized_object e s orig ext ob) = (r1, s1)"
    by (cases "s3_putObject e s bucket (''optimized/'' @ filename) (optimized_object e s orig ext ob)")
  obtain r2 s2 where p2: "s3_putObject e s1 bucket (''thumbnails/'' @ filename)
      (variant_object ext tb) = (r2, s2)"
    by (cases "s3_putObject e s1 bucket (''thumbnails/'' @ filename) (variant_object ext tb)")
  obtain r3 s3 where p3: "s3_putObject_all e s2 bucket (map (size_request filename ext) rs) = (r3, s3)"
    by (cases "s3_putObject_all e s2 bucket (map (size_request filename ext) rs)")
  have e1: "evolves P s s1" using p1 opt by (rule evolves_put)
  have e2: "evolves P s1 s2" using p2 thumb by (rule evolves_put)
  have e3: "evolves P s2 s3"
  proof (rule evolves_put_all [OF p3])
    fix b k obj assume "(k, obj) \<in> set (map (size_request filename ext) rs)"
    then obtain x where "x \<in> set rs" "size_request filename ext x = (k, obj)" by auto
    then show "P (PutObject b k obj)" using sized [of x b] by simp
  qed
  have e12: "evolves P s s2" using e1 e2 by (rule evolves_trans)
  have e13: "evolves P s s3" using e12 e3 by (rule evolves_trans)
  show ?thesis
  proof (cases r1)
    case (Inl err)
    with run p1 have "s' = s1" by (simp add: store_variants_def)
    with e1 show ?thesis by simp
  next
    case r1: (Inr u1)
    show ?thesis
    proof (cases r2)
      case (Inl err)
      with run p1 p2 r1 have "s' = s2" by (simp add: store_variants_def)
      with e12 show ?thesis by simp
    next
      case r2: (Inr u2)
      show ?thesis
      proof (cases r3)
        case (Inl err)
        with run p1 p2 p3 r1 r2 have "s' = s3" by (simp add: store_variants_def)
        with e13 show ?thesis by simp
      next
        case r3: (Inr u3)
        show ?thesis
        proof (cases "convertToWebP e (obj_body orig)")
          case (Inl err)
          with run p1 p2 p3 r1 r2 r3 have "s' = s3" by (simp add: store_variants_def)
          with e13 show ?thesis by simp
        next
          case (Inr wb)
          with run p1 p2 p3 r1 r2 r3
          have "s3_putObject e s3 bucket (''webp/'' @ webpFilename filename) (webp_object wb) = (r, s')"
            by (simp add: store_variants_def)
          then have "evolves P s3 s'" using webp by (rule evolves_put)
          with e13 show ?thesis by (rule evolves_trans)
        qed
      qed
    qed
  qed
qed



lemma evolves_process_key:
  assumes run: "process_key e s bucket key = (r, s')"
    and get: "\<And>b. P (GetObject b key)"
    and opt: "\<And>b s1 orig ob.
        \<lbrakk>s3_getObject e s bucket key = (Inr orig, s1);
         startsWith (or_else (obj_content_type orig) []) ''image/''\<rbrakk> \<Longrightarrow>
        P (PutObject b (''optimized/'' @ filename_of key)
             (optimized_object e s1 orig (fileExtension_of (filename_of key)) ob))"
    and thumb: "\<And>b tb. P (PutObject b (''thumbnails/'' @ filename_of key)
             (variant_object (fileExtension_of (filename_of key)) tb))"
    and sized: "\<And>b name buf. name \<in> fst ` set sizes \<Longrightarrow>
        P (PutObject b (''sizes/'' @ sizeFilename (filename_of key) name)
             (variant_object (fileExtension_of (filename_of key)) buf))"
    and webp: "\<And>b wb. P (PutObject b (''webp/'' @ webpFilename (filename_of key)) (webp_object wb))"
  shows "evolves P s s'"
proof (cases "startsWith key ''original/''")
  case False
  with run have "s' = s" by (simp add: process_key_def)
  then show ?thesis by (simp add: evolves_refl)
next
  case pre: True
  obtain g s1 where g: "s3_getObject e s bucket key = (g, s1)"
    by (cases "s3_getObject e s bucket key")
  have e1: "evolves P s s1" using g get by (rule evolves_get)
  show ?thesis
  proof (cases g)
    case (Inl err)
    with run pre g have "s' = s1" by (simp add: process_key_def)
    with e1 show ?thesis by simp
  next
    case orig: (Inr orig)
    let ?f = "filename_of key"
    let ?x = "fileExtension_of ?f"
    show ?thesis
    proof (cases "?x \<in> set supportedImageFormats \<and>
        startsWith (or_else (obj_content_type orig) []) ''image/''")
      case False
      with run pre g orig have "s' = s1"
        by (auto simp: process_key_def Let_def split: if_splits)
      with e1 show ?thesis by simp
    next
      case ok: True
      show ?thesis
      proof (cases "make_variants e (obj_body orig) ?x")
        case (Inl err)
        with run pre g orig ok have "s' = s1" by (simp add: process_key_def Let_def)
        with e1 show ?thesis by simp
      next
        case (Inr v)
        obtain ob tb rs where v: "v = (ob, tb, rs)" by (cases v)
        obtain w s2 where w: "store_variants e s1 bucket orig ?f ?x ob tb rs = (w, s2)"
          by (cases "store_variants e s1 bucket orig ?f ?x ob tb rs")
        from run pre g orig ok Inr v w have s': "s' = s2"
          by (simp add: process_key_def Let_def split: sum.splits)
        from Inr v have "resize_all e (obj_body orig) ?x sizes = Inr rs"
          by (simp add: make_variants_def split: sum.splits)
        then have names: "map fst rs = map fst sizes" by (rule resize_all_names)
        have e2: "evolves P s1 s2"
        proof (rule evolves_store_variants [OF w])
          fix b
          show "P (PutObject b (''optimized/'' @ ?f) (optimized_object e s1 orig ?x ob))"
            using opt g orig ok by simp
          show "P (PutObject b (''thumbnails/'' @ ?f) (variant_object ?x tb))"
            by (rule thumb)
        next
          fix b x assume "x \<in> set rs"
          then have "fst x \<in> fst ` set sizes" using names by (metis image_eqI list.set_map)
          then show "P (PutObject b (fst (size_request ?f ?x x)) (snd (size_request ?f ?x x)))"
            using sized [of "fst x" b "snd x"] by (simp add: size_request_def)
        next
          fix b wb
          show "P (PutObject b (''webp/'' @ webpFilename ?f) (webp_object wb))" by (rule webp)
        qed
        show ?thesis unfolding s' using e1 e2 by (rule evolves_trans)
      qed
    qed
  qed
qed

lemma optimizeImage_Inr_extension:
  "optimizeImage e buffer ext = Inr b \<Longrightarrow> ext \<in> {''jpg'', ''jpeg'', ''png'', ''webp''}"
  by (auto simp: optimizeImage_def optimizeImage_pipeline_def Let_def split: sum.splits if_splits)

lemma make_variants_Inr:
  assumes "make_variants e buffer ext = Inr (ob, tb, rs)"
  shows "ext \<in> {''jpg'', ''jpeg'', ''png'', ''webp''} \<and> map fst rs = [''small'', ''medium'', ''large'']"
proof -
  from assms have o: "optimizeImage e buffer ext = Inr ob"
    and r: "resize_all e buffer ext sizes = Inr rs"
    by (auto simp: make_variants_def split: sum.splits)
  from resize_all_names [OF r] have "map fst rs = [''small'', ''medium'', ''large'']"
    by (simp add: sizes_def)
  with optimizeImage_Inr_extension [OF o] show ?thesis by simp
qed

lemma process_key_Processed:
  assumes "process_key e s bucket key = (Inr Processed, s')"
  shows "\<exists>orig s1 ob tb rs u.
    startsWith key ''original/'' \<and>
    s3_getObject e s bucket key = (Inr orig, s1) \<and>
    fileExtension_of (filename_of key) \<in> set supportedImageFormats \<and>
    startsWith (or_else (obj_content_type orig) []) ''image/'' \<and>
    make_variants e (obj_body orig) (fileExtension_of (filename_of key)) = Inr (ob, tb, rs) \<and>
    store_variants e s1 bucket orig (filename_of key) (fileExtension_of (filename_of key))
      ob tb rs = (Inr u, s')"
  using assms unfolding process_key_def Let_def
  by (auto split: if_splits prod.splits sum.splits)


lemma put_content_types_append:
  "put_content_types (xs @ ys) = put_content_types xs @ put_content_types ys"
  by (induction xs rule: put_content_types.induct) auto

lemma s3_getObject_Inr:
  assumes "s3_getObject e s bucket key = (Inr orig, s1)"
  shows "\<exists>b. validate_bucket bucket = Inr b \<and> calls s1 = calls s @ [GetObject b key] \<and>
    objects s1 = objects s \<and> objects s (b, key) = Some orig"
  using assms
  by (auto simp: s3_getObject_def Let_def split: sum.splits option.splits)

lemma s3_putObject_Inr:
  assumes "s3_putObject e s bucket key obj = (Inr u, s')" "validate_bucket bucket = Inr b"
  shows "calls s' = calls s @ [PutObject b key obj]"
  using assms
  by (auto simp: s3_putObject_def Let_def split: sum.splits option.splits)

lemma s3_putObject_all_Inr:
  assumes "s3_putObject_all e s bucket reqs = (Inr u, s')" "validate_bucket bucket = Inr b"
  shows "calls s' = calls s @ map (\<lambda>x. PutObject b (fst x) (snd x)) reqs"
  using assms
proof (induction reqs arbitrary: s)
  case Nil
  then show ?case by simp
next
  case (Cons req reqs)
  obtain k obj where req: "req = (k, obj)" by (cases req)
  obtain r1 s1 where p1: "s3_putObject e s bucket k obj = (r1, s1)"
    by (cases "s3_putObject e s bucket k obj")
  obtain r2 s2 where p2: "s3_putObject_all e s1 bucket reqs = (r2, s2)"
    by (cases "s3_putObject_all e s1 bucket reqs")
  from Cons.prems(1) req p1 p2 have r: "r1 = Inr ()" "r2 = Inr u" "s' = s2"
    by (auto split: sum.splits)
  from p1 r Cons.prems(2) have k1: "calls s1 = calls s @ [PutObject b k obj]"
    by (simp add: s3_putObject_Inr)
  from Cons.IH [of s1] p2 r Cons.prems(2)
  have "calls s' = calls s1 @ map (\<lambda>x. PutObject b (fst x) (snd x)) reqs"
    by simp
  with k1 req show ?case by simp
qed

lemma store_variants_Inr:
  assumes "store_variants e s bucket orig filename ext ob tb rs = (Inr u, s')"
    and b: "validate_bucket bucket = Inr b"
  shows "\<exists>wb. calls s' = calls s @
    [PutObject b (''optimized/'' @ filename) (optimized_object e s orig ext ob),
     PutObject b (''thumbnails/'' @ filename) (variant_object ext tb)] @
    map (\<lambda>x. PutObject b (''sizes/'' @ sizeFilename filename (fst x)) (variant_object ext (snd x))) rs @
    [PutObject b (''webp/'' @ webpFilename filename) (webp_object wb)]"
proof -
  from assms obtain s1 s2 s3 wb u1 u2 u3 where
    p1: "s3_putObject e s bucket (''optimized/'' @ filename) (optimized_object e s orig ext ob) = (Inr u1, s1)"
    and p2: "s3_putObject e s1 bucket (''thumbnails/'' @ filename) (variant_object ext tb) = (Inr u2, s2)"
    and p3: "s3_putObject_all e s2 bucket (map (size_request filename ext) rs) = (Inr u3, s3)"
    and p4: "s3_putObject e s3 bucket (''webp/'' @ webpFilename filename) (webp_object wb) = (Inr u, s')"
    unfolding store_variants_def by (auto split: prod.splits sum.splits)
  have "calls s' = calls s @
    [PutObject b (''optimized/'' @ filename) (optimized_object e s orig ext ob),
     PutObject b (''thumbnails/'' @ filename) (variant_object ext tb)] @
    map (\<lambda>x. PutObject b (''sizes/'' @ sizeFilename filename (fst x)) (variant_object ext (snd x))) rs @
    [PutObject b (''webp/'' @ webpFilename filename) (webp_object wb)]"
    using s3_putObject_Inr [OF p1 b] s3_putObject_Inr [OF p2 b]
      s3_putObject_all_Inr [OF p3 b] s3_putObject_Inr [OF p4 b]
    by (simp add: size_request_def comp_def)
  then show ?thesis ..
qed

lemma process_key_Processed_calls:
  assumes "process_key e s bucket key = (Inr Processed, s')"
  shows "\<exists>b orig s1 ob tb sb mb lb wb.
    s3_getObject e s bucket key = (Inr orig, s1) \<and>
    eligible key (obj_content_type orig) \<and>
    fileExtension_of (filename_of key) \<in> {''jpg'', ''jpeg'', ''png'', ''webp''} \<and>
    calls s' = calls s @
      [GetObject b key,
       PutObject b (''optimized/'' @ filename_of key)
         (optimized_object e s1 orig (fileExtension_of (filename_of key)) ob),
       PutObject b (''thumbnails/'' @ filename_of key)
         (variant_object (fileExtension_of (filename_of key)) tb),
       PutObject b (''sizes/'' @ sizeFilename (filename_of key) ''small'')
         (variant_object (fileExtension_of (filename_of key)) sb),
       PutObject b (''sizes/'' @ sizeFilename (filename_of key) ''medium'')
         (variant_object (fileExtension_of (filename_of key)) mb),
       PutObject b (''sizes/'' @ sizeFilename (filename_of key) ''large'')
         (variant_object (fileExtension_of (filename_of key)) lb),
       PutObject b (''webp/'' @ webpFilename (filename_of key)) (webp_object wb)]"
proof -
  let ?f = "filename_of key"
  let ?x = "fileExtension_of ?f"
  from process_key_Processed [OF assms] obtain orig s1 ob tb rs u where
    pre: "startsWith key ''original/''"
    and g: "s3_getObject e s bucket key = (Inr orig, s1)"
    and sup: "?x \<in> set supportedImageFormats"
    and ct: "startsWith (or_else (obj_content_type orig) []) ''image/''"
    and m: "make_variants e (obj_body orig) ?x = Inr (ob, tb, rs)"
    and w: "store_variants e s1 bucket orig ?f ?x ob tb rs = (Inr u, s')"
    by blast
  from s3_getObject_Inr [OF g] obtain b where
    b: "validate_bucket bucket = Inr b" and c1: "calls s1 = calls s @ [GetObject b key]"
    by blast
  from make_variants_Inr [OF m] have x: "?x \<in> {''jpg'', ''jpeg'', ''png'', ''webp''}"
    and n: "map fst rs = [''small'', ''medium'', ''large'']" by simp_all
  from n obtain sb mb lb where rs: "rs = [(''small'', sb), (''medium'', mb), (''large'', lb)]"
    by (auto simp: map_eq_Cons_conv)
  from store_variants_Inr [OF w b] obtain wb where
    c2: "calls s' = calls s1 @
      [PutObject b (''optimized/'' @ ?f) (optimized_object e s1 orig ?x ob),
       PutObject b (''thumbnails/'' @ ?f) (variant_object ?x tb)] @
      map (\<lambda>x. PutObject b (''sizes/'' @ sizeFilename ?f (fst x)) (variant_object ?x (snd x))) rs @
      [PutObject b (''webp/'' @ webpFilename ?f) (webp_object wb)]"
    by blast
  have e: "eligible key (obj_content_type orig)"
    using pre sup ct by (simp add: eligible_def)
  have c: "calls s' = calls s @
      [GetObject b key,
       PutObject b (''optimized/'' @ ?f) (optimized_object e s1 orig ?x ob),
       PutObject b (''thumbnails/'' @ ?f) (variant_object ?x tb),
       PutObject b (''sizes/'' @ sizeFilename ?f ''small'') (variant_object ?x sb),
       PutObject b (''sizes/'' @ sizeFilename ?f ''medium'') (variant_object ?x mb),
       PutObject b (''sizes/'' @ sizeFilename ?f ''large'') (variant_object ?x lb),
       PutObject b (''webp/'' @ webpFilename ?f) (webp_object wb)]"
    unfolding c2 c1 rs by simp
  show ?thesis
    by (intro exI conjI, rule g, rule e, rule x, rule c)
qed

lemma put_keys_Processed:
  assumes "process_key e s bucket key = (Inr Processed, s')"
  shows "put_keys (calls s') = put_keys (calls s) @
    [''optimized/'' @ filename_of key, ''thumbnails/'' @ filename_of key,
     ''sizes/'' @ sizeFilename (filename_of key) ''small'',
     ''sizes/'' @ sizeFilename (filename_of key) ''medium'',
     ''sizes/'' @ sizeFilename (filename_of key) ''large'',
     ''webp/'' @ webpFilename (filename_of key)]"
proof -
  from process_key_Processed_calls [OF assms] obtain b orig s1 ob tb sb mb lb wb where
    c: "calls s' = calls s @
      [GetObject b key,
       PutObject b (''optimized/'' @ filename_of key)
         (optimized_object e s1 orig (fileExtension_of (filename_of key)) ob),
       PutObject b (''thumbnails/'' @ filename_of key)
         (variant_object (fileExtension_of (filename_of key)) tb),
       PutObject b (''sizes/'' @ sizeFilename (filename_of key) ''small'')
         (variant_object (fileExtension_of (filename_of key)) sb),
       PutObject b (''sizes/'' @ sizeFilename (filename_of key) ''medium'')
         (variant_object (fileExtension_of (filename_of key)) mb),
       PutObject b (''sizes/'' @ sizeFilename (filename_of key) ''large'')
         (variant_object (fileExtension_of (filename_of key)) lb),
       PutObject b (''webp/'' @ webpFilename (filename_of key)) (webp_object wb)]"
    by blast
  show ?thesis unfolding c by (simp add: put_keys_append)
qed

lemma evolves_process_key_safe:
  assumes "process_key e s bucket key = (r, s')"
  shows "evolves (\<lambda>c. \<not> writes_original c) s s'"
  using assms by (rule evolves_process_key) (simp_all add: startsWith_def)

lemma evolves_process_record_safe:
  assumes "process_record e s record = (r, s')"
  shows "evolves (\<lambda>c. \<not> writes_original c) s s'"
proof (cases "read_record record")
  case (Inl err)
  with assms have "s' = s" by (simp add: process_record_def)
  then show ?thesis by (simp add: evolves_refl)
next
  case (Inr p)
  obtain bucket raw where p: "p = (bucket, raw)" by (cases p)
  show ?thesis
  proof (cases "decodeURIComponent (replace_plus raw)")
    case (Inl err)
    with assms Inr p have "s' = s" by (simp add: process_record_def)
    then show ?thesis by (simp add: evolves_refl)
  next
    case key: (Inr key)
    with assms Inr p have "process_key e s bucket key = (r, s')"
      by (simp add: process_record_def)
    then show ?thesis by (rule evolves_process_key_safe)
  qed
qed

lemma evolves_process_records_safe:
  "process_records e s records = (r, s') \<Longrightarrow> evolves (\<lambda>c. \<not> writes_original c) s s'"
proof (induction "records" arbitrary: s)
  case Nil
  then show ?case by (simp add: evolves_refl)
next
  case (Cons x xs)
  obtain r1 s1 where p1: "process_record e s x = (r1, s1)"
    by (cases "process_record e s x")
  have e1: "evolves (\<lambda>c. \<not> writes_original c) s s1"
    using p1 by (rule evolves_process_record_safe)
  show ?case
  proof (cases r1)
    case (Inl err)
    with Cons.prems p1 have "s' = s1" by simp
    with e1 show ?thesis by simp
  next
    case (Inr ok)
    with Cons.prems p1 have "process_records e s1 xs = (r, s')" by simp
    then have "evolves (\<lambda>c. \<not> writes_original c) s1 s'" by (rule Cons.IH)
    with e1 show ?thesis by (rule evolves_trans)
  qed
qed

lemma evolves_handler_safe:
  assumes "handler e s event = (r, s')"
  shows "evolves (\<lambda>c. \<not> writes_original c) s s'"
proof (cases "classify event")
  case (Inl err)
  with assms have "s' = s" by (simp add: handler_def)
  then show ?thesis by (simp add: evolves_refl)
next
  case (Inr c)
  show ?thesis
  proof (cases c)
    case (Respond resp)
    with assms Inr have "s' = s" by (simp add: handler_def)
    then show ?thesis by (simp add: evolves_refl)
  next
    case (Work xs)
    obtain r1 s1 where p: "process_records e s xs = (r1, s1)"
      by (cases "process_records e s xs")
    from assms Inr Work p have "s' = s \<or> s' = s1"
      by (auto simp: handler_def split: if_splits sum.splits)
    with evolves_process_records_safe [OF p] show ?thesis
      by (auto simp: evolves_refl)
  qed
qed

lemma process_key_Skipped:
  assumes "process_key e s bucket key = (Inr (Skipped why), s')"
  shows "put_keys (calls s') = put_keys (calls s) \<and> objects s' = objects s"
proof (cases "startsWith key ''original/''")
  case False
  with assms show ?thesis by (simp add: process_key_def)
next
  case True
  obtain g s1 where g: "s3_getObject e s bucket key = (g, s1)"
    by (cases "s3_getObject e s bucket key")
  from assms True g obtain orig where o: "g = Inr orig" and s': "s' = s1"
    by (auto simp: process_key_def Let_def split: sum.splits if_splits prod.splits)
  from s3_getObject_Inr [of e s bucket key orig s1] g o show ?thesis
    unfolding s' by (auto simp: put_keys_append)
qed

lemma read_record_eventbridge:
  "read_record (eventbridge_record detail) =
     (case get_prop (get_prop detail ''object'') ''key'' of
        Some (JStr k) \<Rightarrow> Inr (get_prop (get_prop detail ''bucket'') ''name'', k)
      | _ \<Rightarrow> Inl TypeError)"
proof (cases "get_prop (get_prop detail ''object'') ''key''")
  case None
  then show ?thesis
    by (cases "get_prop (get_prop detail ''bucket'') ''name''")
       (simp_all add: read_record_def eventbridge_record_def)
next
  case (Some v)
  then show ?thesis
    by (cases "get_prop (get_prop detail ''bucket'') ''name''"; cases v)
       (simp_all add: read_record_def eventbridge_record_def)
qed

lemma has_records_iff:
  "has_records event =
     (truthy (get_prop (Some event) ''Records'') \<and> isArray (get_prop (Some event) ''Records'') \<and>
      length (elements (get_prop (Some event) ''Records'')) > 0)"
proof (cases "get_prop (Some event) ''Records''")
  case None
  then show ?thesis by (simp add: has_records_def)
next
  case (Some v)
  then show ?thesis by (cases v) (simp_all add: has_records_def)
qed


lemma or_else_image: "startsWith (or_else ct []) ''image/'' \<Longrightarrow> Some (or_else ct d) = ct"
  by (cases ct) (auto simp: startsWith_def)

lemma s3_getObject_ok:
  assumes "\<And>n c. s3_fault e n c = None" "objects s (b, key) = Some orig"
  shows "s3_getObject e s (Some (JStr b)) key = (Inr orig, s\<lparr>calls := calls s @ [GetObject b key]\<rparr>)"
  using assms by (simp add: s3_getObject_def)

lemma s3_putObject_ok:
  assumes "\<And>n c. s3_fault e n c = None"
  shows "\<exists>s'. s3_putObject e s (Some (JStr b)) k obj = (Inr (), s')"
  using assms by (simp add: s3_putObject_def)

lemma s3_putObject_all_ok:
  assumes "\<And>n c. s3_fault e n c = None"
  shows "\<exists>s'. s3_putObject_all e s (Some (JStr b)) reqs = (Inr (), s')"
proof (induction reqs arbitrary: s)
  case Nil
  show ?case by simp
next
  case (Cons req reqs)
  obtain k obj where req: "req = (k, obj)" by (cases req)
  from s3_putObject_ok [OF assms] obtain s1 where
    p1: "s3_putObject e s (Some (JStr b)) k obj = (Inr (), s1)" by blast
  from Cons.IH [of s1] obtain s2 where
    p2: "s3_putObject_all e s1 (Some (JStr b)) reqs = (Inr (), s2)" by blast
  show ?case using req p1 p2 by simp
qed

lemma resize_all_ok:
  assumes "\<And>ops. \<exists>buf. sharp_toBuffer e buffer ops = Inr buf"
  shows "\<exists>rs. resize_all e buffer ext szs = Inr rs"
proof (induction szs)
  case Nil
  show ?case by simp
next
  case (Cons sz szs)
  obtain name width where sz: "sz = (name, width)" by (cases sz)
  from assms obtain buf where
    b: "createResizedImage e buffer ext width = Inr buf"
    unfolding createResizedImage_def by blast
  from Cons.IH obtain rs where "resize_all e buffer ext szs = Inr rs" by blast
  with sz b show ?case by simp
qed

lemma make_variants_ok:
  assumes tb: "\<And>ops. \<exists>buf. sharp_toBuffer e buffer ops = Inr buf"
    and md: "sharp_metadata e buffer = Inr md"
    and x: "ext \<in> {''jpg'', ''jpeg'', ''png'', ''webp''}"
  shows "\<exists>v. make_variants e buffer ext = Inr v"
proof -
  from x obtain ops where p: "optimizeImage_pipeline md ext = Inr ops"
    by (auto simp: optimizeImage_pipeline_def Let_def)
  from tb obtain ob where "sharp_toBuffer e buffer ops = Inr ob" by blast
  with md p have o: "optimizeImage e buffer ext = Inr ob"
    by (simp add: optimizeImage_def)
  from tb obtain t where t: "createThumbnail e buffer ext = Inr t"
    unfolding createThumbnail_def by blast
  from resize_all_ok [OF tb] obtain rs where r: "resize_all e buffer ext sizes = Inr rs"
    by blast
  from o t r show ?thesis by (simp add: make_variants_def)
qed

lemma store_variants_ok:
  assumes nf: "\<And>n c. s3_fault e n c = None"
    and tb: "\<And>ops. \<exists>buf. sharp_toBuffer e (obj_body orig) ops = Inr buf"
  shows "\<exists>s'. store_variants e s (Some (JStr b)) orig filename ext ob t rs = (Inr (), s')"
proof -
  from s3_putObject_ok [OF nf] obtain s1 where
    p1: "s3_putObject e s (Some (JStr b)) (''optimized/'' @ filename)
      (optimized_object e s orig ext ob) = (Inr (), s1)" by blast
  from s3_putObject_ok [OF nf] obtain s2 where
    p2: "s3_putObject e s1 (Some (JStr b)) (''thumbnails/'' @ filename)
      (variant_object ext t) = (Inr (), s2)" by blast
  from s3_putObject_all_ok [OF nf] obtain s3 where
    p3: "s3_putObject_all e s2 (Some (JStr b)) (map (size_request filename ext) rs) = (Inr (), s3)"
    by blast
  from tb obtain wb where w: "convertToWebP e (obj_body orig) = Inr wb"
    unfolding convertToWebP_def by blast
  from s3_putObject_ok [OF nf] obtain s4 where
    p4: "s3_putObject e s3 (Some (JStr b)) (''webp/'' @ webpFilename filename)
      (webp_object wb) = (Inr (), s4)" by blast
  show ?thesis using p1 p2 p3 w p4 by (simp add: store_variants_def)
qed

lemma process_key_total:
  assumes pre: "startsWith key ''original/''"
    and x: "fileExtension_of (filename_of key) \<in> {''jpg'', ''jpeg'', ''png'', ''webp''}"
    and obj: "objects s (b, key) = Some orig"
    and ct: "startsWith (or_else (obj_content_type orig) []) ''image/''"
    and nf: "\<And>n c. s3_fault e n c = None"
    and md: "sharp_metadata e (obj_body orig) = Inr md"
    and tb: "\<And>ops. \<exists>buf. sharp_toBuffer e (obj_body orig) ops = Inr buf"
  shows "\<exists>s'. process_key e s (Some (JStr b)) key = (Inr Processed, s')"
proof -
  let ?s1 = "s\<lparr>calls := calls s @ [GetObject b key]\<rparr>"
  let ?f = "filename_of key"
  let ?x = "fileExtension_of ?f"
  have g: "s3_getObject e s (Some (JStr b)) key = (Inr orig, ?s1)"
    using nf obj by (rule s3_getObject_ok)
  from x have sup: "?x \<in> set supportedImageFormats"
    by (auto simp: supportedImageFormats_def)
  from make_variants_ok [OF tb md x] obtain ob t rs where
    m: "make_variants e (obj_body orig) ?x = Inr (ob, t, rs)"
    by (metis prod_cases3)
  from store_variants_ok [OF nf tb] obtain s' where
    w: "store_variants e ?s1 (Some (JStr b)) orig ?f ?x ob t rs = (Inr (), s')"
    by blast
  have "process_key e s (Some (JStr b)) key = (Inr Processed, s')"
    using pre g sup ct m w by (simp add: process_key_def)
  then show ?thesis ..
qed

















lemma classify_cases:
  assumes "event \<noteq> JNull"
  shows "classify event =
      (if has_descriptor event
       then Inr (Work [eventbridge_record (get_prop (Some event) ''detail'')])
       else if has_records event
       then Inr (Work (elements (get_prop (Some event) ''Records'')))
       else if get_prop (Some event) ''test'' = Some (JBool True)
       then Inr (Respond probe_response)
       else Inr (Respond (invalid_response event)))"
proof -
  from assms have n: "\<not> nullish (Some event)" by (cases event) simp_all
  show ?thesis
    unfolding classify_def has_descriptor_def has_records_iff Let_def using n by simp
qed

lemma replace_plus_nth:
  "length (replace_plus raw) = length raw \<and>
   (\<forall>i<length raw. replace_plus raw ! i = (if raw ! i = CHR ''+'' then CHR '' '' else raw ! i))"
  by (simp add: replace_plus_def)

lemma decode_plain:
  "CHR ''%'' \<notin> set plain \<Longrightarrow>
   decodeURIComponent (plain @ rest) =
     (case decodeURIComponent rest of Inl err \<Rightarrow> Inl err | Inr t \<Rightarrow> Inr (plain @ t))"
  by (induction plain) (auto split: sum.splits)

lemma hex_val_digit: "n < 16 \<Longrightarrow> hex_val (hex_digit upper n) = Some n"
  by (auto simp: hex_val_def hex_digit_def Let_def)

lemma pct_octet_escape: "b < 256 \<Longrightarrow> pct_octet (pct_escape upper b @ r) = Some (b, r)"
proof -
  assume b: "b < 256"
  then have d: "b div 16 < 16" by simp
  have m: "b mod 16 < 16" by simp
  show ?thesis
    using hex_val_digit [OF d, of upper] hex_val_digit [OF m, of upper]
    by (simp add: pct_escape_def)
qed

lemma pct_octets_encode:
  "\<forall>b\<in>set bs. b < 256 \<Longrightarrow> pct_octets (length bs) (pct_encode upper bs @ r) = Some (bs, r)"
proof (induction bs)
  case Nil
  show ?case by (simp add: pct_encode_def)
next
  case (Cons b bs)
  then have b: "b < 256" and IH: "pct_octets (length bs) (pct_encode upper bs @ r) = Some (bs, r)"
    by (simp_all add: pct_encode_def)
  have "pct_encode upper (b # bs) @ r = pct_escape upper b @ (pct_encode upper bs @ r)"
    by (simp add: pct_encode_def)
  then show ?case
    using pct_octet_escape [OF b, of upper "pct_encode upper bs @ r"] IH by simp
qed

lemma valid_utf8_shape:
  assumes "valid_utf8 bs"
  shows "\<exists>a tl. bs = a # tl \<and> utf8_len a = Some (Suc (length tl)) \<and> (\<forall>b\<in>set bs. b < 256)"
proof -
  from assms consider a where "bs = [a]" |
    a b where "bs = [a, b]" | a b c where "bs = [a, b, c]" | a b c d where "bs = [a, b, c, d]"
    by (cases bs rule: valid_utf8.cases) auto
  then show ?thesis
  proof cases
    case 1
    with assms show ?thesis by (auto simp: utf8_len_def)
  next
    case 2
    with assms show ?thesis by (auto simp: utf8_len_def cont_octet_def)
  next
    case 3
    with assms show ?thesis by (auto simp: utf8_len_def cont_octet_def)
  next
    case 4
    with assms show ?thesis by (auto simp: utf8_len_def cont_octet_def)
  qed
qed

lemma decode_escape:
  assumes v: "valid_utf8 octets"
  shows "decodeURIComponent (pct_encode upper octets @ rest) =
     (case decodeURIComponent rest of
        Inl err \<Rightarrow> Inl err
      | Inr t \<Rightarrow> Inr (map char_of octets @ t))"
proof -
  from valid_utf8_shape [OF v] obtain a tl where
    o: "octets = a # tl" and l: "utf8_len a = Some (Suc (length tl))"
    and r: "\<forall>b\<in>set octets. b < 256"
    by blast
  let ?tail = "hex_digit upper (a div 16) # hex_digit upper (a mod 16) # (pct_encode upper tl @ rest)"
  have e: "pct_encode upper (a # tl) @ rest = CHR ''%'' # ?tail"
    by (simp add: pct_encode_def pct_escape_def)
  from r o have a: "a < 256" and tl: "\<forall>b\<in>set tl. b < 256" by simp_all
  have p1: "pct_octet (CHR ''%'' # ?tail) = Some (a, pct_encode upper tl @ rest)"
    using pct_octet_escape [OF a, of upper "pct_encode upper tl @ rest"]
    by (simp add: pct_escape_def)
  have p2: "pct_octets (length tl) (pct_encode upper tl @ rest) = Some (tl, rest)"
    using tl by (rule pct_octets_encode)
  show ?thesis
    unfolding o e
    by (subst decodeURIComponent.simps) (simp add: p1 l p2 v [unfolded o] del: pct_octet.simps)
qed

lemma decode_truncated:
  "length rest < 2 \<Longrightarrow> decodeURIComponent (CHR ''%'' # rest) = Inl URIError"
  by (cases rest rule: pct_octet.cases) (auto)

text \<open>The definitions that evaluate a run on concrete data.\<close>

lemmas run_defs =
  handler_def classify_def s3_event_def s3_record_def process_record_def read_record_def
  replace_plus_def process_key_def startsWith_def s3_getObject_def store0_def env0_def
  image_object_def filename_of_def fileExtension_of_def toLowerCase_def lower_char_def
  supportedImageFormats_def make_variants_def optimizeImage_def optimizeImage_pipeline_def
  createThumbnail_def createResizedImage_def convertToWebP_def sizes_def store_variants_def
  s3_putObject_def webpFilename_def sizeFilename_def size_request_def target_format_def
  no_records_response_def success_response_def hex_val_def utf8_len_def cont_octet_def
  eligible_def Let_def char_of_def bit_Suc_0_iff optimized_object_def variant_object_def
  webp_object_def

section \<open>C1: destination keys\<close>

text \<open>
  C1 as stated fails: the key \<^verbatim>\<open>original/a.gif\<close> with content type \<^verbatim>\<open>image/gif\<close> passes the
  three eligibility checks, and the handler writes nothing for it.
\<close>

theorem C1_counterexample:
  "eligible ''original/a.gif'' (obj_content_type (image_object ''image/gif'')) \<and>
   put_keys (calls (snd (handler env0 store0 (s3_event [''original/a.gif''])))) = []"
  by (simp add: run_defs)

text \<open>
  C1 (amended). Take a work item whose key is \<^verbatim>\<open>original/<name>.<ext>\<close>, \<open>ext\<close> holding
  no dot. If its lower-cased extension is jpg, jpeg, png or webp, the object is in the
  bucket with a content type that starts with \<^verbatim>\<open>image/\<close>, the store fails no request and
  sharp reads the metadata and renders every pipeline, then the item is processed and
  the handler writes exactly six objects, in this order: \<^verbatim>\<open>optimized/<name>.<ext>\<close>,
  \<^verbatim>\<open>thumbnails/<name>.<ext>\<close>, \<^verbatim>\<open>sizes/<name>-small.<ext>\<close>, \<^verbatim>\<open>sizes/<name>-medium.<ext>\<close>,
  \<^verbatim>\<open>sizes/<name>-large.<ext>\<close> and \<^verbatim>\<open>webp/<name>.webp\<close>, the extension kept in its own case.
  Conversely every item that is processed to the end has one of these four extensions
  and wrote exactly these six keys.
\<close>

theorem C1_destination_keys:
  assumes key: "key = ''original/'' @ name @ ''.'' @ ext" and dot: "CHR ''.'' \<notin> set ext"
  shows "(toLowerCase ext \<in> {''jpg'', ''jpeg'', ''png'', ''webp''} \<and>
      objects s (b, key) = Some orig \<and>
      startsWith (or_else (obj_content_type orig) []) ''image/'' \<and>
      (\<forall>n c. s3_fault e n c = None) \<and>
      (\<exists>md. sharp_metadata e (obj_body orig) = Inr md) \<and>
      (\<forall>ops. \<exists>buf. sharp_toBuffer e (obj_body orig) ops = Inr buf) \<longrightarrow>
        fst (process_key e s (Some (JStr b)) key) = Inr Processed \<and>
        put_keys (calls (snd (process_key e s (Some (JStr b)) key))) = put_keys (calls s) @
          [''optimized/'' @ name @ ''.'' @ ext,
           ''thumbnails/'' @ name @ ''.'' @ ext,
           ''sizes/'' @ name @ ''-small.'' @ ext,
           ''sizes/'' @ name @ ''-medium.'' @ ext,
           ''sizes/'' @ name @ ''-large.'' @ ext,
           ''webp/'' @ name @ ''.webp'']) \<and>
    (process_key e s bucket key = (Inr Processed, s') \<longrightarrow>
        toLowerCase ext \<in> {''jpg'', ''jpeg'', ''png'', ''webp''} \<and>
        put_keys (calls s') = put_keys (calls s) @
          [''optimized/'' @ name @ ''.'' @ ext,
           ''thumbnails/'' @ name @ ''.'' @ ext,
           ''sizes/'' @ name @ ''-small.'' @ ext,
           ''sizes/'' @ name @ ''-medium.'' @ ext,
           ''sizes/'' @ name @ ''-large.'' @ ext,
           ''webp/'' @ name @ ''.webp''])"
proof -
  have f: "filename_of key = name @ ''.'' @ ext"
    unfolding key by (rule filename_of_original)
  have l: "fileExtension_of (filename_of key) = toLowerCase ext"
    unfolding f using dot by (rule fileExtension_of_append)
  have complete: "toLowerCase ext \<in> {''jpg'', ''jpeg'', ''png'', ''webp''} \<and>
      put_keys (calls t) = put_keys (calls s) @
        [''optimized/'' @ name @ ''.'' @ ext,
         ''thumbnails/'' @ name @ ''.'' @ ext,
         ''sizes/'' @ name @ ''-small.'' @ ext,
         ''sizes/'' @ name @ ''-medium.'' @ ext,
         ''sizes/'' @ name @ ''-large.'' @ ext,
         ''webp/'' @ name @ ''.webp'']"
    if p: "process_key e s bkt key = (Inr Processed, t)" for bkt t
  proof -
    from process_key_Processed_calls [OF p] have
      x: "fileExtension_of (filename_of key) \<in> {''jpg'', ''jpeg'', ''png'', ''webp''}"
      by blast
    from x l have low: "toLowerCase ext \<in> {''jpg'', ''jpeg'', ''png'', ''webp''}" by simp
    then have ne: "ext \<noteq> []" by (auto simp: toLowerCase_def)
    show ?thesis
      using put_keys_Processed [OF p] low
      unfolding f sizeFilename_append [OF ne dot] webpFilename_append [OF ne dot]
      by simp
  qed
  have total: "fst (process_key e s (Some (JStr b)) key) = Inr Processed \<and>
      put_keys (calls (snd (process_key e s (Some (JStr b)) key))) = put_keys (calls s) @
        [''optimized/'' @ name @ ''.'' @ ext,
         ''thumbnails/'' @ name @ ''.'' @ ext,
         ''sizes/'' @ name @ ''-small.'' @ ext,
         ''sizes/'' @ name @ ''-medium.'' @ ext,
         ''sizes/'' @ name @ ''-large.'' @ ext,
         ''webp/'' @ name @ ''.webp'']"
    if low: "toLowerCase ext \<in> {''jpg'', ''jpeg'', ''png'', ''webp''}"
      and obj: "objects s (b, key) = Some orig"
      and ct: "startsWith (or_else (obj_content_type orig) []) ''image/''"
      and nf: "\<forall>n c. s3_fault e n c = None"
      and md: "\<exists>md. sharp_metadata e (obj_body orig) = Inr md"
      and tb: "\<forall>ops. \<exists>buf. sharp_toBuffer e (obj_body orig) ops = Inr buf"
  proof -
    have pre: "startsWith key ''original/''" unfolding key by (simp add: startsWith_def)
    from md obtain m where m: "sharp_metadata e (obj_body orig) = Inr m" by blast
    from low l have x: "fileExtension_of (filename_of key) \<in> {''jpg'', ''jpeg'', ''png'', ''webp''}"
      by simp
    from process_key_total [OF pre x obj ct _ m] nf tb obtain t where
      p: "process_key e s (Some (JStr b)) key = (Inr Processed, t)" by blast
    from complete [OF p] p show ?thesis by simp
  qed
  from complete total show ?thesis by blast
qed

text \<open>
  The amended C1 on \<^verbatim>\<open>original/photo.JPG\<close>, found in the bucket with content type
  \<^verbatim>\<open>image/jpeg\<close>, with a store and a codec that never fail.
\<close>

theorem C1_destination_keys_witness:
  "''original/photo.JPG'' = ''original/'' @ ''photo'' @ ''.'' @ ''JPG'' \<and>
   CHR ''.'' \<notin> set ''JPG'' \<and>
   toLowerCase ''JPG'' \<in> {''jpg'', ''jpeg'', ''png'', ''webp''} \<and>
   objects store0 (''bkt'', ''original/photo.JPG'') = Some (image_object ''image/jpeg'') \<and>
   startsWith (or_else (obj_content_type (image_object ''image/jpeg'')) []) ''image/'' \<and>
   (\<forall>n c. s3_fault env0 n c = None) \<and>
   (\<exists>md. sharp_metadata env0 (obj_body (image_object ''image/jpeg'')) = Inr md) \<and>
   (\<forall>ops. \<exists>buf. sharp_toBuffer env0 (obj_body (image_object ''image/jpeg'')) ops = Inr buf) \<and>
   fst (process_key env0 store0 (Some (JStr ''bkt'')) ''original/photo.JPG'') = Inr Processed \<and>
   put_keys (calls (snd (process_key env0 store0 (Some (JStr ''bkt'')) ''original/photo.JPG''))) =
     [''optimized/photo.JPG'', ''thumbnails/photo.JPG'', ''sizes/photo-small.JPG'',
      ''sizes/photo-medium.JPG'', ''sizes/photo-large.JPG'', ''webp/photo.webp'']"
proof -
  have k: "''original/photo.JPG'' = ''original/'' @ ''photo'' @ ''.'' @ ''JPG''" by simp
  have d: "CHR ''.'' \<notin> set ''JPG''" by simp
  have l: "toLowerCase ''JPG'' \<in> {''jpg'', ''jpeg'', ''png'', ''webp''}"
    by (simp add: run_defs)
  have o: "objects store0 (''bkt'', ''original/photo.JPG'') = Some (image_object ''image/jpeg'')"
    by (simp add: store0_def)
  have t: "startsWith (or_else (obj_content_type (image_object ''image/jpeg'')) []) ''image/''"
    by (simp add: image_object_def startsWith_def)
  have nf: "\<forall>n c. s3_fault env0 n c = None" by (simp add: env0_def)
  have md: "\<exists>md. sharp_metadata env0 (obj_body (image_object ''image/jpeg'')) = Inr md"
    by (simp add: env0_def)
  have tb: "\<forall>ops. \<exists>buf. sharp_toBuffer env0 (obj_body (image_object ''image/jpeg'')) ops = Inr buf"
    by (simp add: env0_def)
  have c: "calls store0 = []" by (simp add: store0_def)
  from C1_destination_keys [OF k d, where s = store0 and b = "''bkt''"
      and orig = "image_object ''image/jpeg''" and e = env0] l o t nf md tb
  have "fst (process_key env0 store0 (Some (JStr ''bkt'')) ''original/photo.JPG'') = Inr Processed \<and>
    put_keys (calls (snd (process_key env0 store0 (Some (JStr ''bkt'')) ''original/photo.JPG''))) =
      put_keys (calls store0) @
      [''optimized/'' @ ''photo'' @ ''.'' @ ''JPG'',
       ''thumbnails/'' @ ''photo'' @ ''.'' @ ''JPG'',
       ''sizes/'' @ ''photo'' @ ''-small.'' @ ''JPG'',
       ''sizes/'' @ ''photo'' @ ''-medium.'' @ ''JPG'',
       ''sizes/'' @ ''photo'' @ ''-large.'' @ ''JPG'',
       ''webp/'' @ ''photo'' @ ''.webp'']"
    by blast
  with k d l o t nf md tb c show ?thesis by simp
qed

section \<open>C2: the originals are left alone\<close>

text \<open>
  C2. For every event, no request of the invocation writes to a key that starts with
  \<^verbatim>\<open>original/\<close>, and the requests are gets and puts only; every object stored under such a
  key is afterwards what it was before, and every object that was in the store is still
  there.
\<close>

theorem C2_originals_untouched:
  assumes "handler e s event = (r, s')"
  shows "(\<exists>new. calls s' = calls s @ new \<and> list_all (\<lambda>c. \<not> writes_original c) new) \<and>
    (\<forall>b k. startsWith k ''original/'' \<longrightarrow> objects s' (b, k) = objects s (b, k)) \<and>
    (\<forall>b k. objects s (b, k) \<noteq> None \<longrightarrow> objects s' (b, k) \<noteq> None)"
proof -
  from evolves_handler_safe [OF assms]
  have c: "\<exists>new. calls s' = calls s @ new \<and> list_all (\<lambda>c. \<not> writes_original c) new"
    and o: "\<And>b k. objects s' (b, k) = objects s (b, k) \<or>
      (\<exists>obj. objects s' (b, k) = Some obj \<and> \<not> writes_original (PutObject b k obj))"
    unfolding evolves_def by blast+
  have o1: "objects s' (b, k) = objects s (b, k)" if "startsWith k ''original/''" for b k
    using o [of b k] that by auto
  have o2: "objects s' (b, k) \<noteq> None" if "objects s (b, k) \<noteq> None" for b k
    using o [of b k] that by auto
  from c o1 o2 show ?thesis by blast
qed

text \<open>
  C2 on the event for \<^verbatim>\<open>original/photo.jpg\<close>: six objects are written, and the source is
  the object it was.
\<close>

theorem C2_originals_untouched_witness:
  "startsWith ''original/photo.jpg'' ''original/'' \<and>
   objects store0 (''bkt'', ''original/photo.jpg'') = Some (image_object ''image/jpeg'') \<and>
   objects (snd (handler env0 store0 (s3_event [''original/photo.jpg''])))
     (''bkt'', ''original/photo.jpg'') = Some (image_object ''image/jpeg'') \<and>
   put_keys (calls (snd (handler env0 store0 (s3_event [''original/photo.jpg''])))) =
     [''optimized/photo.jpg'', ''thumbnails/photo.jpg'', ''sizes/photo-small.jpg'',
      ''sizes/photo-medium.jpg'', ''sizes/photo-large.jpg'', ''webp/photo.webp'']"
proof -
  let ?h = "handler env0 store0 (s3_event [''original/photo.jpg''])"
  have h: "?h = (fst ?h, snd ?h)" by simp
  have p: "startsWith ''original/photo.jpg'' ''original/''" by (simp add: startsWith_def)
  have o: "objects store0 (''bkt'', ''original/photo.jpg'') = Some (image_object ''image/jpeg'')"
    by (simp add: store0_def)
  from C2_originals_untouched [OF h] p
  have "objects (snd ?h) (''bkt'', ''original/photo.jpg'') =
      objects store0 (''bkt'', ''original/photo.jpg'')"
    by blast
  moreover have "put_keys (calls (snd ?h)) =
     [''optimized/photo.jpg'', ''thumbnails/photo.jpg'', ''sizes/photo-small.jpg'',
      ''sizes/photo-medium.jpg'', ''sizes/photo-large.jpg'', ''webp/photo.webp'']"
    by (simp add: run_defs)
  ultimately show ?thesis using p o by simp
qed

section \<open>C3: eligibility\<close>

text \<open>
  C3. The three checks run in the order prefix, extension, content type, and the first
  that fails decides: a key that does not start with \<^verbatim>\<open>original/\<close> is skipped before
  anything is fetched; once the object is fetched, an unsupported extension skips the item
  whatever its content type is, and only then a content type that does not start with
  \<^verbatim>\<open>image/\<close> does. A fetched item is skipped exactly when it is not eligible. A skipped item
  writes nothing, and the loop goes on with the next record.
\<close>

theorem C3_eligibility_order:
  "(\<not> startsWith key ''original/'' \<longrightarrow>
      process_key e s bucket key = (Inr (Skipped NonOriginalFile), s)) \<and>
   (startsWith key ''original/'' \<and> s3_getObject e s bucket key = (Inr orig, s1) \<and>
    fileExtension_of (filename_of key) \<notin> set supportedImageFormats \<longrightarrow>
      process_key e s bucket key = (Inr (Skipped UnsupportedFileFormat), s1)) \<and>
   (startsWith key ''original/'' \<and> s3_getObject e s bucket key = (Inr orig, s1) \<and>
    fileExtension_of (filename_of key) \<in> set supportedImageFormats \<and>
    \<not> startsWith (or_else (obj_content_type orig) []) ''image/'' \<longrightarrow>
      process_key e s bucket key = (Inr (Skipped NotAnImageFile), s1)) \<and>
   (startsWith key ''original/'' \<and> s3_getObject e s bucket key = (Inr orig, s1) \<longrightarrow>
      (eligible key (obj_content_type orig)) =
      (\<forall>why. fst (process_key e s bucket key) \<noteq> Inr (Skipped why))) \<and>
   (process_key e s bucket key = (Inr (Skipped why), s2) \<longrightarrow>
      put_keys (calls s2) = put_keys (calls s) \<and> objects s2 = objects s) \<and>
   (process_record e s record = (Inr (Skipped why), s2) \<longrightarrow>
      process_records e s (record # rest) = process_records e s2 rest)"
proof (intro conjI)
  show "\<not> startsWith key ''original/'' \<longrightarrow>
      process_key e s bucket key = (Inr (Skipped NonOriginalFile), s)"
    by (simp add: process_key_def)
  show "startsWith key ''original/'' \<and> s3_getObject e s bucket key = (Inr orig, s1) \<and>
    fileExtension_of (filename_of key) \<notin> set supportedImageFormats \<longrightarrow>
      process_key e s bucket key = (Inr (Skipped UnsupportedFileFormat), s1)"
    by (simp add: process_key_def)
  show "startsWith key ''original/'' \<and> s3_getObject e s bucket key = (Inr orig, s1) \<and>
    fileExtension_of (filename_of key) \<in> set supportedImageFormats \<and>
    \<not> startsWith (or_else (obj_content_type orig) []) ''image/'' \<longrightarrow>
      process_key e s bucket key = (Inr (Skipped NotAnImageFile), s1)"
    by (simp add: process_key_def)
  show "startsWith key ''original/'' \<and> s3_getObject e s bucket key = (Inr orig, s1) \<longrightarrow>
      (eligible key (obj_content_type orig)) =
      (\<forall>why. fst (process_key e s bucket key) \<noteq> Inr (Skipped why))"
  proof
    assume a: "startsWith key ''original/'' \<and> s3_getObject e s bucket key = (Inr orig, s1)"
    show "eligible key (obj_content_type orig) =
        (\<forall>why. fst (process_key e s bucket key) \<noteq> Inr (Skipped why))"
    proof (cases "eligible key (obj_content_type orig)")
      case True
      with a show ?thesis
        by (auto simp: process_key_def eligible_def Let_def split: sum.splits prod.splits)
    next
      case False
      with a show ?thesis
        by (auto simp: process_key_def eligible_def Let_def)
    qed
  qed
  show "process_key e s bucket key = (Inr (Skipped why), s2) \<longrightarrow>
      put_keys (calls s2) = put_keys (calls s) \<and> objects s2 = objects s"
    using process_key_Skipped [of e s bucket key why s2] by blast
  show "process_record e s record = (Inr (Skipped why), s2) \<longrightarrow>
      process_records e s (record # rest) = process_records e s2 rest"
    by simp
qed

text \<open>
  C3 on \<^verbatim>\<open>thumbnails/x.jpg\<close> (wrong prefix), \<^verbatim>\<open>original/doc.pdf\<close> (whose content type is
  not an image either: the extension decides) and \<^verbatim>\<open>original/fake.jpg\<close> (content type
  \<^verbatim>\<open>text/plain\<close>); after the three, \<^verbatim>\<open>original/photo.jpg\<close> is processed.
\<close>

theorem C3_eligibility_order_witness:
  "process_key env0 store0 (Some (JStr ''bkt'')) ''thumbnails/x.jpg'' =
     (Inr (Skipped NonOriginalFile), store0) \<and>
   fst (process_key env0 store0 (Some (JStr ''bkt'')) ''original/doc.pdf'') =
     Inr (Skipped UnsupportedFileFormat) \<and>
   fst (process_key env0 store0 (Some (JStr ''bkt'')) ''original/fake.jpg'') =
     Inr (Skipped NotAnImageFile) \<and>
   put_keys (calls (snd (process_key env0 store0 (Some (JStr ''bkt'')) ''original/fake.jpg''))) = [] \<and>
   put_keys (calls (snd (handler env0 store0
     (s3_event [''thumbnails/x.jpg'', ''original/doc.pdf'', ''original/fake.jpg'',
                ''original/photo.jpg''])))) =
     [''optimized/photo.jpg'', ''thumbnails/photo.jpg'', ''sizes/photo-small.jpg'',
      ''sizes/photo-medium.jpg'', ''sizes/photo-large.jpg'', ''webp/photo.webp'']"
proof -
  let ?b = "Some (JStr ''bkt'')"
  let ?pdf = "s3_getObject env0 store0 ?b ''original/doc.pdf''"
  let ?fake = "s3_getObject env0 store0 ?b ''original/fake.jpg''"
  have g1: "?pdf = (Inr (image_object ''application/pdf''), snd ?pdf)"
    by (simp add: s3_getObject_def store0_def env0_def)
  have g2: "?fake = (Inr (image_object ''text/plain''), snd ?fake)"
    by (simp add: s3_getObject_def store0_def env0_def)
  have x1: "fileExtension_of (filename_of ''original/doc.pdf'') \<notin> set supportedImageFormats"
    by (simp add: run_defs)
  have x2: "fileExtension_of (filename_of ''original/fake.jpg'') \<in> set supportedImageFormats"
    by (simp add: run_defs)
  have t2: "\<not> startsWith (or_else (obj_content_type (image_object ''text/plain'')) []) ''image/''"
    by (simp add: run_defs)
  have p: "startsWith ''original/doc.pdf'' ''original/''" "startsWith ''original/fake.jpg'' ''original/''"
    "\<not> startsWith ''thumbnails/x.jpg'' ''original/''"
    by (simp_all add: startsWith_def)
  have a: "process_key env0 store0 ?b ''thumbnails/x.jpg'' = (Inr (Skipped NonOriginalFile), store0)"
    using C3_eligibility_order [of "''thumbnails/x.jpg''" env0 store0 ?b] p by blast
  have b: "process_key env0 store0 ?b ''original/doc.pdf'' = (Inr (Skipped UnsupportedFileFormat), snd ?pdf)"
    using C3_eligibility_order [of "''original/doc.pdf''" env0 store0 ?b
        "image_object ''application/pdf''" "snd ?pdf"] p g1 x1 by blast
  have c: "process_key env0 store0 ?b ''original/fake.jpg'' = (Inr (Skipped NotAnImageFile), snd ?fake)"
    using C3_eligibility_order [of "''original/fake.jpg''" env0 store0 ?b
        "image_object ''text/plain''" "snd ?fake"] p g2 x2 t2 by blast
  have d: "put_keys (calls (snd (process_key env0 store0 ?b ''original/fake.jpg''))) =
      put_keys (calls store0)"
    using C3_eligibility_order [of "''original/fake.jpg''" env0 store0 ?b
        "image_object ''text/plain''" "snd ?fake" NotAnImageFile "snd ?fake"] c by simp
  have e: "put_keys (calls (snd (handler env0 store0
     (s3_event [''thumbnails/x.jpg'', ''original/doc.pdf'', ''original/fake.jpg'',
                ''original/photo.jpg''])))) =
     [''optimized/photo.jpg'', ''thumbnails/photo.jpg'', ''sizes/photo-small.jpg'',
      ''sizes/photo-medium.jpg'', ''sizes/photo-large.jpg'', ''webp/photo.webp'']"
    by (simp add: run_defs)
  have s: "calls store0 = []" by (simp add: store0_def)
  show ?thesis using a b c d e s by simp
qed

section \<open>C4: classification of the event\<close>

text \<open>
  C4 as stated fails on the event \<^verbatim>\<open>null\<close>: reading \<^verbatim>\<open>event.detail\<close> throws a TypeError, and
  no response is returned.
\<close>

theorem C4_counterexample:
  "handler env0 store0 JNull = (Inl TypeError, store0)"
  by (simp add: handler_def classify_def)

text \<open>
  C4 (amended). The event \<^verbatim>\<open>null\<close> raises a TypeError. Every other event is classified in
  a fixed order: with a \<^verbatim>\<open>detail.bucket\<close> and \<^verbatim>\<open>detail.object\<close> descriptor it yields exactly one
  work item, whose bucket is \<^verbatim>\<open>detail.bucket.name\<close> and whose key is \<^verbatim>\<open>detail.object.key\<close>;
  otherwise, with a non-empty \<^verbatim>\<open>Records\<close> array, it yields the records of the array in their
  order; otherwise, with \<^verbatim>\<open>test === true\<close>, the handler returns status 200 with the message
  \<^verbatim>\<open>Lambda function is working. Configure S3 trigger or EventBridge to process images.\<close> and
  a note, and sends no request; otherwise it returns status 400 with a body that names the
  error and lists \<^verbatim>\<open>Object.keys(event)\<close>, the property names of an object in their order.
\<close>

theorem C4_event_classification:
  "(event = JNull \<longrightarrow> handler e s event = (Inl TypeError, s)) \<and>
   (event \<noteq> JNull \<and> has_descriptor event \<longrightarrow>
      classify event = Inr (Work [eventbridge_record (get_prop (Some event) ''detail'')]) \<and>
      read_record (eventbridge_record (get_prop (Some event) ''detail'')) =
        (case get_prop (get_prop (get_prop (Some event) ''detail'') ''object'') ''key'' of
           Some (JStr k) \<Rightarrow>
             Inr (get_prop (get_prop (get_prop (Some event) ''detail'') ''bucket'') ''name'', k)
         | _ \<Rightarrow> Inl TypeError)) \<and>
   (event \<noteq> JNull \<and> \<not> has_descriptor event \<and> has_records event \<longrightarrow>
      classify event = Inr (Work (elements (get_prop (Some event) ''Records'')))) \<and>
   (event \<noteq> JNull \<and> \<not> has_descriptor event \<and> \<not> has_records event \<and>
    get_prop (Some event) ''test'' = Some (JBool True) \<longrightarrow>
      handler e s event =
        (Inr \<lparr>statusCode = 200,
              body = JObj
                [(''message'', JStr ''Lambda function is working. Configure S3 trigger or EventBridge to process images.''),
                 (''note'', JStr ''This function processes images when triggered by S3 events in the 'original/' folder.'')]\<rparr>,
         s)) \<and>
   (event \<noteq> JNull \<and> \<not> has_descriptor event \<and> \<not> has_records event \<and>
    get_prop (Some event) ''test'' \<noteq> Some (JBool True) \<longrightarrow>
      handler e s event =
        (Inr \<lparr>statusCode = 400,
              body = JObj
                [(''error'', JStr ''Invalid event format. Expected S3 event or EventBridge event.''),
                 (''received'', JArr (map JStr (object_keys event)))]\<rparr>,
         s)) \<and>
   object_keys (JObj kvs) = map fst kvs"
proof (intro conjI)
  show "event = JNull \<longrightarrow> handler e s event = (Inl TypeError, s)"
    by (simp add: handler_def classify_def)
  show "event \<noteq> JNull \<and> has_descriptor event \<longrightarrow>
      classify event = Inr (Work [eventbridge_record (get_prop (Some event) ''detail'')]) \<and>
      read_record (eventbridge_record (get_prop (Some event) ''detail'')) =
        (case get_prop (get_prop (get_prop (Some event) ''detail'') ''object'') ''key'' of
           Some (JStr k) \<Rightarrow>
             Inr (get_prop (get_prop (get_prop (Some event) ''detail'') ''bucket'') ''name'', k)
         | _ \<Rightarrow> Inl TypeError)"
    using classify_cases [of event] read_record_eventbridge [of "get_prop (Some event) ''detail''"]
    by simp
  show "event \<noteq> JNull \<and> \<not> has_descriptor event \<and> has_records event \<longrightarrow>
      classify event = Inr (Work (elements (get_prop (Some event) ''Records'')))"
    using classify_cases [of event] by simp
  show "event \<noteq> JNull \<and> \<not> has_descriptor event \<and> \<not> has_records event \<and>
    get_prop (Some event) ''test'' = Some (JBool True) \<longrightarrow>
      handler e s event =
        (Inr \<lparr>statusCode = 200,
              body = JObj
                [(''message'', JStr ''Lambda function is working. Configure S3 trigger or EventBridge to process images.''),
                 (''note'', JStr ''This function processes images when triggered by S3 events in the 'original/' folder.'')]\<rparr>,
         s)"
    using classify_cases [of event] by (simp add: handler_def probe_response_def)
  show "event \<noteq> JNull \<and> \<not> has_descriptor event \<and> \<not> has_records event \<and>
    get_prop (Some event) ''test'' \<noteq> Some (JBool True) \<longrightarrow>
      handler e s event =
        (Inr \<lparr>statusCode = 400,
              body = JObj
                [(''error'', JStr ''Invalid event format. Expected S3 event or EventBridge event.''),
                 (''received'', JArr (map JStr (object_keys event)))]\<rparr>,
         s)"
    using classify_cases [of event] by (simp add: handler_def invalid_response_def)
  show "object_keys (JObj kvs) = map fst kvs" by simp
qed

text \<open>
  The amended C4 on \<^verbatim>\<open>null\<close>, an EventBridge event, an S3 event with two records, the probe
  \<^verbatim>\<open>{test: true}\<close>, the object \<^verbatim>\<open>{foo: 1}\<close>, whose received keys are \<^verbatim>\<open>["foo"]\<close>, and a string of
  one two-byte character, whose only key is \<^verbatim>\<open>"0"\<close>.
\<close>

theorem C4_event_classification_witness:
  "handler env0 store0 JNull = (Inl TypeError, store0) \<and>
   classify (eventbridge_event ''bkt'' ''original/photo.jpg'') =
     Inr (Work [s3_record ''original/photo.jpg'']) \<and>
   read_record (s3_record ''original/photo.jpg'') = Inr (Some (JStr ''bkt''), ''original/photo.jpg'') \<and>
   classify (s3_event [''original/a.gif'', ''original/photo.jpg'']) =
     Inr (Work [s3_record ''original/a.gif'', s3_record ''original/photo.jpg'']) \<and>
   handler env0 store0 (JObj [(''test'', JBool True)]) =
     (Inr \<lparr>statusCode = 200,
           body = JObj
             [(''message'', JStr ''Lambda function is working. Configure S3 trigger or EventBridge to process images.''),
              (''note'', JStr ''This function processes images when triggered by S3 events in the 'original/' folder.'')]\<rparr>,
      store0) \<and>
   handler env0 store0 (JObj [(''foo'', JNum 1)]) =
     (Inr \<lparr>statusCode = 400,
           body = JObj [(''error'', JStr ''Invalid event format. Expected S3 event or EventBridge event.''),
                        (''received'', JArr [JStr ''foo''])]\<rparr>,
      store0) \<and>
   handler env0 store0 (JStr [CHR 0xC3, CHR 0xA9]) =
     (Inr \<lparr>statusCode = 400,
           body = JObj [(''error'', JStr ''Invalid event format. Expected S3 event or EventBridge event.''),
                        (''received'', JArr [JStr ''0''])]\<rparr>,
      store0)"
proof -
  let ?eb = "eventbridge_event ''bkt'' ''original/photo.jpg''"
  let ?s3 = "s3_event [''original/a.gif'', ''original/photo.jpg'']"
  let ?probe = "JObj [(''test'', JBool True)]"
  let ?foo = "JObj [(''foo'', JNum 1)]"
  let ?str = "JStr [CHR 0xC3, CHR 0xA9]"
  have h: "has_descriptor ?eb" "\<not> has_descriptor ?s3" "has_records ?s3"
    "\<not> has_descriptor ?probe" "\<not> has_records ?probe" "\<not> has_descriptor ?foo" "\<not> has_records ?foo"
    "\<not> has_descriptor ?str" "\<not> has_records ?str"
    by (simp_all add: has_descriptor_def has_records_def eventbridge_event_def s3_event_def)
  have n: "?eb \<noteq> JNull" "?s3 \<noteq> JNull" "?probe \<noteq> JNull" "?foo \<noteq> JNull" "?str \<noteq> JNull"
    by (simp_all add: eventbridge_event_def s3_event_def)
  have t: "get_prop (Some ?probe) ''test'' = Some (JBool True)"
    "get_prop (Some ?foo) ''test'' \<noteq> Some (JBool True)"
    "get_prop (Some ?str) ''test'' \<noteq> Some (JBool True)"
    by simp_all
  have e: "eventbridge_record (get_prop (Some ?eb) ''detail'') = s3_record ''original/photo.jpg''"
    by (simp add: eventbridge_record_def eventbridge_event_def s3_record_def)
  have k: "object_keys ?str = [''0'']"
    by (simp add: utf16_length_def utf16_units_def show_nat.simps char_of_def bit_Suc_0_iff)
  have z: "handler env0 store0 JNull = (Inl TypeError, store0)"
    using C4_event_classification [of JNull env0 store0] by blast
  have a: "classify ?eb = Inr (Work [s3_record ''original/photo.jpg'']) \<and>
      read_record (s3_record ''original/photo.jpg'') = Inr (Some (JStr ''bkt''), ''original/photo.jpg'')"
    using C4_event_classification [of ?eb env0 store0] h(1) n(1) e
    by (simp add: eventbridge_event_def)
  have b: "classify ?s3 = Inr (Work [s3_record ''original/a.gif'', s3_record ''original/photo.jpg''])"
    using C4_event_classification [of ?s3 env0 store0] h(2,3) n(2)
    by (simp add: s3_event_def)
  have c: "handler env0 store0 ?probe =
     (Inr \<lparr>statusCode = 200,
           body = JObj
             [(''message'', JStr ''Lambda function is working. Configure S3 trigger or EventBridge to process images.''),
              (''note'', JStr ''This function processes images when triggered by S3 events in the 'original/' folder.'')]\<rparr>,
      store0)"
    using C4_event_classification [of ?probe env0 store0] h(4,5) n(3) t(1) by blast
  have d: "handler env0 store0 ?foo =
     (Inr \<lparr>statusCode = 400,
           body = JObj [(''error'', JStr ''Invalid event format. Expected S3 event or EventBridge event.''),
                        (''received'', JArr (map JStr (object_keys ?foo)))]\<rparr>,
      store0)"
    using C4_event_classification [of ?foo env0 store0] h(6,7) n(4) t(2) by blast
  have f: "handler env0 store0 ?str =
     (Inr \<lparr>statusCode = 400,
           body = JObj [(''error'', JStr ''Invalid event format. Expected S3 event or EventBridge event.''),
                        (''received'', JArr (map JStr (object_keys ?str)))]\<rparr>,
      store0)"
    using C4_event_classification [of ?str env0 store0] h(8,9) n(5) t(3) by blast
  show ?thesis using z a b c d f [unfolded k] by simp
qed

section \<open>C5: errors propagate\<close>



section \<open>C6: EXIF rotation\<close>

text \<open>
  C6. Only \<^verbatim>\<open>optimizeImage\<close> calls \<^verbatim>\<open>rotate()\<close>, once and before its resize. The pipelines
  of \<^verbatim>\<open>createThumbnail\<close>, \<^verbatim>\<open>createResizedImage\<close> and \<^verbatim>\<open>convertToWebP\<close> hold no rotation, for
  any extension and width: the thumbnail, the three sized variants and the WebP variant
  are made from the unrotated source.
\<close>

theorem C6_rotation_only_in_optimizeImage:
  "optimizeImage_pipeline (2000, 1500) ''jpg'' =
     Inr [Rotate, ResizeInside (Some 1200) (Some 1200), Jpeg 85 True True] \<and>
   createThumbnail_pipeline ''jpg'' = [ResizeInside (Some 300) (Some 300), ToFormat ''jpeg'' 80] \<and>
   createResizedImage_pipeline ''jpg'' 320 = [ResizeInside (Some 320) None, ToFormat ''jpeg'' 85] \<and>
   convertToWebP_pipeline = [Webp 85 6] \<and>
   count_list (createThumbnail_pipeline extension) Rotate = 0 \<and>
   count_list (createResizedImage_pipeline extension width) Rotate = 0 \<and>
   count_list convertToWebP_pipeline Rotate = 0"
  by (simp add: optimizeImage_pipeline_def createThumbnail_pipeline_def
      createResizedImage_pipeline_def convertToWebP_pipeline_def target_format_def)

section \<open>C7: content type and target format\<close>

text \<open>
  C7 as stated fails for the optimized variant: for \<^verbatim>\<open>original/scan.png\<close>, declared
  \<^verbatim>\<open>image/jpeg\<close> on upload, the target format is png and the optimized object is stored as
  \<^verbatim>\<open>image/jpeg\<close>.
\<close>

theorem C7_counterexample:
  "put_content_types (calls (snd (handler env0 store0 (s3_event [''original/scan.png''])))) ! 0 =
     (''optimized/scan.png'', Some ''image/jpeg'') \<and>
   ''image/'' @ target_format (fileExtension_of (filename_of ''original/scan.png'')) = ''image/png''"
  by (simp add: run_defs)

text \<open>
  C7 (amended). For every variant written other than the optimized one, the stored
  content type is derived from the target format alone, \<^verbatim>\<open>image/<format>\<close> (so
  \<^verbatim>\<open>image/jpeg\<close> for jpeg and \<^verbatim>\<open>image/webp\<close> for the WebP variant); the optimized variant is
  stored with the content type declared on the source object.
\<close>

theorem C7_content_type_from_format:
  assumes "process_key e s bucket key = (r, s')"
    and "s3_getObject e s bucket key = (Inr orig, s1)"
  shows "\<exists>new. calls s' = calls s @ new \<and>
    list_all (stored_content_type_ok (obj_content_type orig)
      (target_format (fileExtension_of (filename_of key)))) new"
proof -
  have "evolves (stored_content_type_ok (obj_content_type orig)
      (target_format (fileExtension_of (filename_of key)))) s s'"
  proof (rule evolves_process_key [OF assms(1)])
    fix b s1' orig' ob
    assume g: "s3_getObject e s bucket key = (Inr orig', s1')"
      and i: "startsWith (or_else (obj_content_type orig') []) ''image/''"
    from g assms(2) have o: "orig' = orig" by simp
    have ct: "Some (or_else (obj_content_type orig')
        (''image/'' @ target_format (fileExtension_of (filename_of key)))) = obj_content_type orig'"
      using i by (rule or_else_image)
    show "stored_content_type_ok (obj_content_type orig)
        (target_format (fileExtension_of (filename_of key)))
        (PutObject b (''optimized/'' @ filename_of key)
          (optimized_object e s1' orig' (fileExtension_of (filename_of key)) ob))"
      using ct o by (simp add: optimized_object_def startsWith_def)
  qed (simp_all add: startsWith_def variant_object_def webp_object_def)
  then show ?thesis unfolding evolves_def by blast
qed

text \<open>
  The amended C7 on \<^verbatim>\<open>original/scan.png\<close>.
\<close>

theorem C7_content_type_from_format_witness:
  "s3_getObject env0 store0 (Some (JStr ''bkt'')) ''original/scan.png'' =
     (Inr (image_object ''image/jpeg''),
      snd (s3_getObject env0 store0 (Some (JStr ''bkt'')) ''original/scan.png'')) \<and>
   list_all (stored_content_type_ok (Some ''image/jpeg'') ''png'')
     (calls (snd (process_key env0 store0 (Some (JStr ''bkt'')) ''original/scan.png''))) \<and>
   put_content_types
     (calls (snd (process_key env0 store0 (Some (JStr ''bkt'')) ''original/scan.png''))) =
     [(''optimized/scan.png'', Some ''image/jpeg''), (''thumbnails/scan.png'', Some ''image/png''),
      (''sizes/scan-small.png'', Some ''image/png''), (''sizes/scan-medium.png'', Some ''image/png''),
      (''sizes/scan-large.png'', Some ''image/png''), (''webp/scan.webp'', Some ''image/webp'')]"
proof -
  let ?b = "Some (JStr ''bkt'')"
  let ?p = "process_key env0 store0 ?b ''original/scan.png''"
  let ?g = "s3_getObject env0 store0 ?b ''original/scan.png''"
  have p: "?p = (fst ?p, snd ?p)" by simp
  have g: "?g = (Inr (image_object ''image/jpeg''), snd ?g)"
    by (simp add: s3_getObject_def store0_def env0_def)
  have f: "target_format (fileExtension_of (filename_of ''original/scan.png'')) = ''png''"
    by (simp add: run_defs)
  have c: "calls store0 = []" by (simp add: store0_def)
  have t: "obj_content_type (image_object ''image/jpeg'') = Some ''image/jpeg''"
    by (simp add: image_object_def)
  from C7_content_type_from_format [OF p g]
  have a: "list_all (stored_content_type_ok (Some ''image/jpeg'') ''png'') (calls (snd ?p))"
    unfolding f c t by simp
  have v: "put_content_types (calls (snd ?p)) =
     [(''optimized/scan.png'', Some ''image/jpeg''), (''thumbnails/scan.png'', Some ''image/png''),
      (''sizes/scan-small.png'', Some ''image/png''), (''sizes/scan-medium.png'', Some ''image/png''),
      (''sizes/scan-large.png'', Some ''image/png''), (''webp/scan.webp'', Some ''image/webp'')]"
    by (simp add: run_defs)
  from g a v show ?thesis by simp
qed

section \<open>C8: gif, bmp and tiff\<close>

text \<open>
  C8. A work item whose key starts with \<^verbatim>\<open>original/\<close>, whose lower-cased extension is
  gif, bmp or tiff and whose fetched content type starts with \<^verbatim>\<open>image/\<close> is eligible, and
  \<^verbatim>\<open>optimizeImage\<close> raises an error for it: the one sharp raised on reading the metadata, or
  else \<^verbatim>\<open>Unsupported image format\<close>. The error ends the loop, and nothing is written for the
  item.
\<close>

theorem C8_unsupported_target_format:
  assumes "startsWith key ''original/''"
    and "fileExtension_of (filename_of key) \<in> {''gif'', ''bmp'', ''tiff''}"
    and "s3_getObject e s bucket key = (Inr orig, s1)"
    and "startsWith (or_else (obj_content_type orig) []) ''image/''"
    and "read_record record = Inr (bucket, raw)"
    and "decodeURIComponent (replace_plus raw) = Inr key"
  shows "eligible key (obj_content_type orig) \<and>
    optimizeImage e (obj_body orig) (fileExtension_of (filename_of key)) =
      Inl (case sharp_metadata e (obj_body orig) of
             Inl x \<Rightarrow> x
           | Inr md \<Rightarrow> Error (''Unsupported image format: '' @ fileExtension_of (filename_of key))) \<and>
    process_records e s (record # rest) =
      (Inl (case sharp_metadata e (obj_body orig) of
              Inl x \<Rightarrow> x
            | Inr md \<Rightarrow> Error (''Unsupported image format: '' @ fileExtension_of (filename_of key))),
       s1) \<and>
    put_keys (calls s1) = put_keys (calls s) \<and> objects s1 = objects s"
proof -
  let ?x = "fileExtension_of (filename_of key)"
  let ?err = "case sharp_metadata e (obj_body orig) of
      Inl x \<Rightarrow> x | Inr md \<Rightarrow> Error (''Unsupported image format: '' @ ?x)"
  from assms(2) have sup: "?x \<in> set supportedImageFormats"
    by (auto simp: supportedImageFormats_def)
  with assms(1,4) have el: "eligible key (obj_content_type orig)"
    by (simp add: eligible_def)
  from assms(2) have o: "optimizeImage e (obj_body orig) ?x = Inl ?err"
    by (auto simp: optimizeImage_def optimizeImage_pipeline_def split: sum.splits)
  then have m: "make_variants e (obj_body orig) ?x = Inl ?err"
    by (simp add: make_variants_def)
  have k: "process_key e s bucket key = (Inl ?err, s1)"
    using assms(1,3,4) sup m by (simp add: process_key_def)
  have r: "process_records e s (record # rest) = (Inl ?err, s1)"
    using k assms(5,6) by (simp add: process_record_def)
  from s3_getObject_Inr [OF assms(3)]
  have w: "put_keys (calls s1) = put_keys (calls s) \<and> objects s1 = objects s"
    by (auto simp: put_keys_append)
  from el o r w show ?thesis by simp
qed

text \<open>
  C8 on \<^verbatim>\<open>original/a.gif\<close>.
\<close>

theorem C8_unsupported_target_format_witness:
  "eligible ''original/a.gif'' (Some ''image/gif'') \<and>
   process_records env0 store0 [s3_record ''original/a.gif'', s3_record ''original/photo.jpg''] =
     (Inl (Error ''Unsupported image format: gif''),
      store0\<lparr>calls := [GetObject ''bkt'' ''original/a.gif'']\<rparr>) \<and>
   put_keys [GetObject ''bkt'' ''original/a.gif''] = []"
proof -
  let ?b = "Some (JStr ''bkt'')"
  let ?s1 = "store0\<lparr>calls := [GetObject ''bkt'' ''original/a.gif'']\<rparr>"
  have p: "startsWith ''original/a.gif'' ''original/''" by (simp add: startsWith_def)
  have x: "fileExtension_of (filename_of ''original/a.gif'') = ''gif''"
    by (simp add: run_defs)
  have g: "s3_getObject env0 store0 ?b ''original/a.gif'' = (Inr (image_object ''image/gif''), ?s1)"
    by (simp add: s3_getObject_def store0_def env0_def)
  have t: "startsWith (or_else (obj_content_type (image_object ''image/gif'')) []) ''image/''"
    by (simp add: image_object_def startsWith_def)
  have r: "read_record (s3_record ''original/a.gif'') = Inr (?b, ''original/a.gif'')"
    by (simp add: read_record_def s3_record_def)
  have d: "decodeURIComponent (replace_plus ''original/a.gif'') = Inr ''original/a.gif''"
    by (simp add: replace_plus_def)
  have m: "sharp_metadata env0 (obj_body (image_object ''image/gif'')) = Inr (2000, 1500)"
    by (simp add: env0_def)
  have i: "obj_content_type (image_object ''image/gif'') = Some ''image/gif''"
    by (simp add: image_object_def)
  from C8_unsupported_target_format [of "''original/a.gif''" env0 store0 ?b
      "image_object ''image/gif''" ?s1 "s3_record ''original/a.gif''" "''original/a.gif''"
      "[s3_record ''original/photo.jpg'']", OF p _ g t r d]
  show ?thesis unfolding x m i by simp
qed

section \<open>C9: content type of the other variants\<close>

text \<open>
  C9. Every put of a work item under \<^verbatim>\<open>thumbnails/\<close> or \<^verbatim>\<open>sizes/\<close> has the content type
  \<^verbatim>\<open>image/jpeg\<close> when the lower-cased extension is jpg or jpeg, and \<^verbatim>\<open>image/<extension>\<close>
  otherwise; every put under \<^verbatim>\<open>webp/\<close> has \<^verbatim>\<open>image/webp\<close>.
\<close>

theorem C9_variant_content_types:
  assumes "process_key e s bucket key = (r, s')"
  shows "\<exists>new. calls s' = calls s @ new \<and>
    list_all (variant_content_type_ok (fileExtension_of (filename_of key))) new"
proof -
  have "evolves (variant_content_type_ok (fileExtension_of (filename_of key))) s s'"
    using assms
    by (rule evolves_process_key)
       (simp_all add: startsWith_def optimized_object_def variant_object_def webp_object_def
          target_format_def)
  then show ?thesis unfolding evolves_def by blast
qed

text \<open>
  C9 on \<^verbatim>\<open>original/photo.JPG\<close>.
\<close>

theorem C9_variant_content_types_witness:
  "list_all (variant_content_type_ok ''jpg'')
     (calls (snd (process_key env0 store0 (Some (JStr ''bkt'')) ''original/photo.JPG''))) \<and>
   put_content_types
     (calls (snd (process_key env0 store0 (Some (JStr ''bkt'')) ''original/photo.JPG''))) =
     [(''optimized/photo.JPG'', Some ''image/jpeg''), (''thumbnails/photo.JPG'', Some ''image/jpeg''),
      (''sizes/photo-small.JPG'', Some ''image/jpeg''), (''sizes/photo-medium.JPG'', Some ''image/jpeg''),
      (''sizes/photo-large.JPG'', Some ''image/jpeg''), (''webp/photo.webp'', Some ''image/webp'')] \<and>
   startsWith ''thumbnails/photo.JPG'' ''thumbnails/'' \<and>
   startsWith ''sizes/photo-small.JPG'' ''sizes/'' \<and>
   startsWith ''webp/photo.webp'' ''webp/''"
proof -
  let ?p = "process_key env0 store0 (Some (JStr ''bkt'')) ''original/photo.JPG''"
  have p: "?p = (fst ?p, snd ?p)" by simp
  have x: "fileExtension_of (filename_of ''original/photo.JPG'') = ''jpg''"
    by (simp add: run_defs)
  have c: "calls store0 = []" by (simp add: store0_def)
  from C9_variant_content_types [OF p]
  have a: "list_all (variant_content_type_ok ''jpg'') (calls (snd ?p))"
    unfolding x c by simp
  have v: "put_content_types (calls (snd ?p)) =
     [(''optimized/photo.JPG'', Some ''image/jpeg''), (''thumbnails/photo.JPG'', Some ''image/jpeg''),
      (''sizes/photo-small.JPG'', Some ''image/jpeg''), (''sizes/photo-medium.JPG'', Some ''image/jpeg''),
      (''sizes/photo-large.JPG'', Some ''image/jpeg''), (''webp/photo.webp'', Some ''image/webp'')]"
    by (simp add: run_defs)
  from a v show ?thesis by (simp add: startsWith_def)
qed

section \<open>C10: the key is decoded first\<close>

text \<open>
  C10. The key of a record has every \<^verbatim>\<open>+\<close> replaced by a space, each one at its place and
  nothing else changed, and is then percent-decoded: text without \<^verbatim>\<open>%\<close> is kept, the escapes
  of the octets of one UTF-8 character, in upper or lower case, yield these octets, and a
  \<^verbatim>\<open>%\<close> with fewer than two characters after it raises URIError. The work item is processed
  under the decoded key: the prefix test, the file name and the six destination keys are
  those of the decoded key, and a key that cannot be decoded raises the error before
  anything is fetched.
\<close>

theorem C10_decoded_key:
  "length (replace_plus raw) = length raw \<and>
   (\<forall>i<length raw. replace_plus raw ! i = (if raw ! i = CHR ''+'' then CHR '' '' else raw ! i)) \<and>
   (CHR ''%'' \<notin> set plain \<longrightarrow>
      decodeURIComponent (plain @ rest) =
        (case decodeURIComponent rest of Inl x \<Rightarrow> Inl x | Inr t \<Rightarrow> Inr (plain @ t))) \<and>
   (valid_utf8 octets \<longrightarrow>
      decodeURIComponent (pct_encode upper octets @ rest) =
        (case decodeURIComponent rest of
           Inl x \<Rightarrow> Inl x
         | Inr t \<Rightarrow> Inr (map char_of octets @ t))) \<and>
   (length rest < 2 \<longrightarrow> decodeURIComponent (CHR ''%'' # rest) = Inl URIError) \<and>
   (read_record item = Inr (bucket, raw) \<and> decodeURIComponent (replace_plus raw) = Inr key \<longrightarrow>
      process_record e s item = process_key e s bucket key) \<and>
   (read_record item = Inr (bucket, raw) \<and> decodeURIComponent (replace_plus raw) = Inr key \<and>
    \<not> startsWith key ''original/'' \<longrightarrow>
      process_record e s item = (Inr (Skipped NonOriginalFile), s)) \<and>
   (read_record item = Inr (bucket, raw) \<and> decodeURIComponent (replace_plus raw) = Inr key \<and>
    process_record e s item = (Inr Processed, s') \<longrightarrow>
      put_keys (calls s') = put_keys (calls s) @
        [''optimized/'' @ filename_of key, ''thumbnails/'' @ filename_of key,
         ''sizes/'' @ sizeFilename (filename_of key) ''small'',
         ''sizes/'' @ sizeFilename (filename_of key) ''medium'',
         ''sizes/'' @ sizeFilename (filename_of key) ''large'',
         ''webp/'' @ webpFilename (filename_of key)]) \<and>
   (read_record item = Inr (bucket, raw) \<and> decodeURIComponent (replace_plus raw) = Inl err \<longrightarrow>
      process_record e s item = (Inl err, s))"
proof (intro conjI)
  show "length (replace_plus raw) = length raw"
    using replace_plus_nth [of raw] by blast
  show "\<forall>i<length raw. replace_plus raw ! i = (if raw ! i = CHR ''+'' then CHR '' '' else raw ! i)"
    using replace_plus_nth [of raw] by blast
  show "CHR ''%'' \<notin> set plain \<longrightarrow>
      decodeURIComponent (plain @ rest) =
        (case decodeURIComponent rest of Inl x \<Rightarrow> Inl x | Inr t \<Rightarrow> Inr (plain @ t))"
    using decode_plain [of plain rest] by blast
  show "valid_utf8 octets \<longrightarrow>
      decodeURIComponent (pct_encode upper octets @ rest) =
        (case decodeURIComponent rest of
           Inl x \<Rightarrow> Inl x
         | Inr t \<Rightarrow> Inr (map char_of octets @ t))"
    using decode_escape [of octets upper rest] by blast
  show "length rest < 2 \<longrightarrow> decodeURIComponent (CHR ''%'' # rest) = Inl URIError"
    using decode_truncated [of rest] by blast
  show "read_record item = Inr (bucket, raw) \<and> decodeURIComponent (replace_plus raw) = Inr key \<longrightarrow>
      process_record e s item = process_key e s bucket key"
    by (simp add: process_record_def)
  show "read_record item = Inr (bucket, raw) \<and> decodeURIComponent (replace_plus raw) = Inr key \<and>
    \<not> startsWith key ''original/'' \<longrightarrow>
      process_record e s item = (Inr (Skipped NonOriginalFile), s)"
    by (simp add: process_record_def process_key_def)
  show "read_record item = Inr (bucket, raw) \<and> decodeURIComponent (replace_plus raw) = Inr key \<and>
    process_record e s item = (Inr Processed, s') \<longrightarrow>
      put_keys (calls s') = put_keys (calls s) @
        [''optimized/'' @ filename_of key, ''thumbnails/'' @ filename_of key,
         ''sizes/'' @ sizeFilename (filename_of key) ''small'',
         ''sizes/'' @ sizeFilename (filename_of key) ''medium'',
         ''sizes/'' @ sizeFilename (filename_of key) ''large'',
         ''webp/'' @ webpFilename (filename_of key)]"
  proof
    assume a: "read_record item = Inr (bucket, raw) \<and>
      decodeURIComponent (replace_plus raw) = Inr key \<and>
      process_record e s item = (Inr Processed, s')"
    then have rr: "read_record item = Inr (bucket, raw)"
      and d: "decodeURIComponent (replace_plus raw) = Inr key"
      and r: "process_record e s item = (Inr Processed, s')" by simp_all
    from r rr d have "process_key e s bucket key = (Inr Processed, s')"
      by (simp add: process_record_def)
    then show "put_keys (calls s') = put_keys (calls s) @
        [''optimized/'' @ filename_of key, ''thumbnails/'' @ filename_of key,
         ''sizes/'' @ sizeFilename (filename_of key) ''small'',
         ''sizes/'' @ sizeFilename (filename_of key) ''medium'',
         ''sizes/'' @ sizeFilename (filename_of key) ''large'',
         ''webp/'' @ webpFilename (filename_of key)]"
      by (rule put_keys_Processed)
  qed
  show "read_record item = Inr (bucket, raw) \<and> decodeURIComponent (replace_plus raw) = Inl err \<longrightarrow>
      process_record e s item = (Inl err, s)"
    by (simp add: process_record_def)
qed

text \<open>
  C10 on \<^verbatim>\<open>original%2Fmy+summer+photo%2B%C3%A9.jpg\<close>, with two plus signs, an escaped plus
  and a two-octet character; on a key that decodes to \<^verbatim>\<open>thumbnails/x.jpg\<close>; and on
  \<^verbatim>\<open>original/100%.jpg\<close>, which does not decode.
\<close>

theorem C10_decoded_key_witness:
  "replace_plus ''my+summer+photo'' ! 2 = CHR '' '' \<and>
   replace_plus ''my+summer+photo'' ! 9 = CHR '' '' \<and>
   replace_plus ''my+summer+photo'' ! 3 = CHR ''s'' \<and>
   decodeURIComponent ''.jpg'' = Inr ''.jpg'' \<and>
   decodeURIComponent ''%c3%a9.jpg'' = Inr ([CHR 0xC3, CHR 0xA9] @ ''.jpg'') \<and>
   decodeURIComponent ''%4'' = Inl URIError \<and>
   decodeURIComponent (replace_plus ''original%2Fmy+summer+photo%2B%C3%A9.jpg'') =
     Inr (''original/my summer photo+'' @ [CHR 0xC3, CHR 0xA9] @ ''.jpg'') \<and>
   \<not> startsWith ''original%2Fmy+summer+photo%2B%C3%A9.jpg'' ''original/'' \<and>
   fst (process_record env0 store1 (s3_record ''original%2Fmy+summer+photo%2B%C3%A9.jpg'')) =
     Inr Processed \<and>
   put_keys (calls (snd (process_record env0 store1
       (s3_record ''original%2Fmy+summer+photo%2B%C3%A9.jpg'')))) =
     [''optimized/my summer photo+'' @ [CHR 0xC3, CHR 0xA9] @ ''.jpg'',
      ''thumbnails/my summer photo+'' @ [CHR 0xC3, CHR 0xA9] @ ''.jpg'',
      ''sizes/my summer photo+'' @ [CHR 0xC3, CHR 0xA9] @ ''-small.jpg'',
      ''sizes/my summer photo+'' @ [CHR 0xC3, CHR 0xA9] @ ''-medium.jpg'',
      ''sizes/my summer photo+'' @ [CHR 0xC3, CHR 0xA9] @ ''-large.jpg'',
      ''webp/my summer photo+'' @ [CHR 0xC3, CHR 0xA9] @ ''.webp''] \<and>
   process_record env0 store0 (s3_record ''thumbnails%2Fx.jpg'') =
     (Inr (Skipped NonOriginalFile), store0) \<and>
   process_record env0 store0 (s3_record ''original/100%.jpg'') = (Inl URIError, store0)"
proof -
  let ?b = "Some (JStr ''bkt'')"
  let ?raw = "''original%2Fmy+summer+photo%2B%C3%A9.jpg''"
  let ?key = "''original/my summer photo+'' @ [CHR 0xC3, CHR 0xA9] @ ''.jpg''"
  let ?r = "process_record env0 store1 (s3_record ?raw)"
  note ev = replace_plus_def hex_val_def utf8_len_def cont_octet_def char_of_def bit_Suc_0_iff
    Let_def
  note C = C10_decoded_key
  have n1: "replace_plus ''my+summer+photo'' ! 2 = CHR '' ''"
    using C [where raw = "''my+summer+photo''"] by simp
  have n2: "replace_plus ''my+summer+photo'' ! 9 = CHR '' ''"
    using C [where raw = "''my+summer+photo''"] by simp
  have n3: "replace_plus ''my+summer+photo'' ! 3 = CHR ''s''"
    using C [where raw = "''my+summer+photo''"] by simp
  have p1: "decodeURIComponent ''.jpg'' = Inr ''.jpg''"
    using C [where plain = "''.jpg''" and rest = "[]"] by simp
  have enc: "pct_encode False [195, 169] = ''%c3%a9''"
    by (simp add: pct_encode_def pct_escape_def hex_digit_def char_of_def bit_Suc_0_iff)
  have chars: "map char_of [195, 169 :: nat] = [CHR 0xC3, CHR 0xA9]"
    by (simp add: char_of_def bit_Suc_0_iff)
  have v: "valid_utf8 [195, 169]" by (simp add: cont_octet_def)
  have p2: "decodeURIComponent ''%c3%a9.jpg'' = Inr ([CHR 0xC3, CHR 0xA9] @ ''.jpg'')"
    using C [where octets = "[195, 169]" and upper = False and rest = "''.jpg''"] v p1
    unfolding enc chars by simp
  have p3: "decodeURIComponent ''%4'' = Inl URIError"
    using C [where rest = "''4''"] by simp
  have r1: "read_record (s3_record ?raw) = Inr (?b, ?raw)"
    "read_record (s3_record ''thumbnails%2Fx.jpg'') = Inr (?b, ''thumbnails%2Fx.jpg'')"
    "read_record (s3_record ''original/100%.jpg'') = Inr (?b, ''original/100%.jpg'')"
    by (simp_all add: read_record_def s3_record_def)
  have d1: "decodeURIComponent (replace_plus ?raw) = Inr ?key"
    by (simp add: ev)
  have d2: "decodeURIComponent (replace_plus ''thumbnails%2Fx.jpg'') = Inr ''thumbnails/x.jpg''"
    by (simp add: ev)
  have d3: "decodeURIComponent (replace_plus ''original/100%.jpg'') = Inl URIError"
    by (simp add: ev)
  have n: "\<not> startsWith ?raw ''original/''"
    "\<not> startsWith ''thumbnails/x.jpg'' ''original/''"
    by (simp_all add: startsWith_def)
  have k: "process_record env0 store1 (s3_record ?raw) = process_key env0 store1 ?b ?key"
    using C [where item = "s3_record ?raw" and bucket = ?b and raw = ?raw and key = ?key
        and e = env0 and s = store1] r1(1) d1 by blast
  have p: "process_key env0 store1 ?b ?key = (Inr Processed, snd (process_key env0 store1 ?b ?key))"
    by (simp add: run_defs store1_def)
  with k have p': "?r = (Inr Processed, snd ?r)" by simp
  have f: "filename_of ?key = ''my summer photo+'' @ [CHR 0xC3, CHR 0xA9] @ ''.jpg''"
    "sizeFilename (''my summer photo+'' @ [CHR 0xC3, CHR 0xA9] @ ''.jpg'') ''small'' =
       ''my summer photo+'' @ [CHR 0xC3, CHR 0xA9] @ ''-small.jpg''"
    "sizeFilename (''my summer photo+'' @ [CHR 0xC3, CHR 0xA9] @ ''.jpg'') ''medium'' =
       ''my summer photo+'' @ [CHR 0xC3, CHR 0xA9] @ ''-medium.jpg''"
    "sizeFilename (''my summer photo+'' @ [CHR 0xC3, CHR 0xA9] @ ''.jpg'') ''large'' =
       ''my summer photo+'' @ [CHR 0xC3, CHR 0xA9] @ ''-large.jpg''"
    "webpFilename (''my summer photo+'' @ [CHR 0xC3, CHR 0xA9] @ ''.jpg'') =
       ''my summer photo+'' @ [CHR 0xC3, CHR 0xA9] @ ''.webp''"
    by (simp_all add: run_defs)
  have c: "calls store1 = []" by (simp add: store1_def store0_def)
  have "put_keys (calls (snd ?r)) = put_keys (calls store1) @
      [''optimized/'' @ filename_of ?key, ''thumbnails/'' @ filename_of ?key,
       ''sizes/'' @ sizeFilename (filename_of ?key) ''small'',
       ''sizes/'' @ sizeFilename (filename_of ?key) ''medium'',
       ''sizes/'' @ sizeFilename (filename_of ?key) ''large'',
       ''webp/'' @ webpFilename (filename_of ?key)]"
    using C [where item = "s3_record ?raw" and bucket = ?b and raw = ?raw and key = ?key
        and e = env0 and s = store1 and s' = "snd ?r"] r1(1) d1 p'
    by blast
  then have a: "put_keys (calls (snd ?r)) =
     [''optimized/my summer photo+'' @ [CHR 0xC3, CHR 0xA9] @ ''.jpg'',
      ''thumbnails/my summer photo+'' @ [CHR 0xC3, CHR 0xA9] @ ''.jpg'',
      ''sizes/my summer photo+'' @ [CHR 0xC3, CHR 0xA9] @ ''-small.jpg'',
      ''sizes/my summer photo+'' @ [CHR 0xC3, CHR 0xA9] @ ''-medium.jpg'',
      ''sizes/my summer photo+'' @ [CHR 0xC3, CHR 0xA9] @ ''-large.jpg'',
      ''webp/my summer photo+'' @ [CHR 0xC3, CHR 0xA9] @ ''.webp'']"
    unfolding f c by simp
  have b: "process_record env0 store0 (s3_record ''thumbnails%2Fx.jpg'') =
     (Inr (Skipped NonOriginalFile), store0)"
    using C [where item = "s3_record ''thumbnails%2Fx.jpg''" and bucket = ?b
        and raw = "''thumbnails%2Fx.jpg''" and key = "''thumbnails/x.jpg''" and e = env0
        and s = store0] r1(2) d2 n(2) by blast
  have e: "process_record env0 store0 (s3_record ''original/100%.jpg'') = (Inl URIError, store0)"
    using C [where item = "s3_record ''original/100%.jpg''" and bucket = ?b
        and raw = "''original/100%.jpg''" and err = URIError and e = env0 and s = store0]
      r1(3) d3 by blast
  from p' have p'': "fst ?r = Inr Processed" by (metis fst_conv)
  from n1 n2 n3 p1 p2 p3 d1 n(1) p'' a b e show ?thesis by simp
qed

end
